theory Spec2Isabelle
  imports Complex_Main "HOL-Library.Sublist"
begin

section \<open>check-secrets: certificate expiry scan over Istio gateways\<close>

text \<open>
  A shallow embedding of \<^verbatim>\<open>main.go\<close>. Every function of the program is a HOL function
  of the same name. The cluster and the \<^verbatim>\<open>openssl\<close> binary are external: they are the
  fields of the record \<open>env\<close>, one field per call the program makes, answering as one
  snapshot (the same call gives the same answer during a scan). What the program does
  to the outside world is returned as a trace of events, in program order: the calls
  to the cluster and to \<^verbatim>\<open>openssl\<close>, and the lines printed.

  Go's \<^verbatim>\<open>error\<close> values are their messages (\<^verbatim>\<open>err.Error()\<close>), \<open>None\<close> for \<^verbatim>\<open>nil\<close>; a
  function returning \<^verbatim>\<open>(value, error)\<close> returns the pair, with the value the source
  returns beside the error. \<^verbatim>\<open>[]byte\<close> and \<^verbatim>\<open>string\<close> are both \<open>string\<close>, a list of
  bytes.
\<close>

subsection \<open>Data\<close>

text \<open>
  The content of an \<^verbatim>\<open>unstructured.Unstructured\<close>: the dynamic values a decoded JSON
  document is made of (\<^verbatim>\<open>nil\<close>, \<^verbatim>\<open>bool\<close>, \<^verbatim>\<open>int64\<close>, \<^verbatim>\<open>float64\<close>, \<^verbatim>\<open>string\<close>,
  \<^verbatim>\<open>[]interface{}\<close>, \<^verbatim>\<open>map[string]interface{}\<close>). A map is an association list read
  with \<open>map_of\<close>. The program never looks inside a number.
\<close>

datatype jv =
    JNull
  | JBool bool
  | JInt int
  | JFloat real
  | JStr string
  | JList "jv list"
  | JMap "(string \<times> jv) list"

type_synonym obj = "(string \<times> jv) list"

text \<open>\<^verbatim>\<open>corev1.Secret\<close>: the two fields the program reads.\<close>

record secret =
  Name :: string
  Data :: "string \<rightharpoonup> string"

text \<open>The \<^verbatim>\<open>Printf\<close> and \<^verbatim>\<open>Println\<close> call sites of the program, each with its arguments.\<close>

datatype line =
    ClientsError string
  | NamespacesError string
  | ResourcesError string
  | SecretsError string string
  | AnalyzeError string string string
  | Certificate string string string string

datatype event =
    ListNamespacesCall
  | ListGatewaysCall string
  | GetSecretCall string string
  | OpensslCall string
  | Print line

text \<open>
  The external collaborators. \<open>Inl\<close> is the error message of a failed call.
  \<open>fmtV\<close> is the text \<^verbatim>\<open>fmt\<close> prints for a dynamic value under \<^verbatim>\<open>%v\<close>; it only occurs
  inside one error message and is left open.
\<close>

record env =
  clientConfig :: "string option"
  newForConfig :: "string option"
  newDynForConfig :: "string option"
  listNamespaces :: "string + string list"
  listGateways :: "string \<Rightarrow> string + obj list"
  getSecret :: "string \<Rightarrow> string \<Rightarrow> string + secret"
  openssl :: "string \<Rightarrow> string + string"
  fmtV :: "jv \<Rightarrow> string"

definition NL :: char where
  "NL = CHR 0x0A"

definition CR :: char where
  "CR = CHR 0x0D"

subsection \<open>Output text\<close>

text \<open>The bytes each call site writes to standard output.\<close>

fun render :: "line \<Rightarrow> string" where
  "render (ClientsError err) = ''error creating the k8s clients: '' @ err @ [NL]"
| "render (NamespacesError err) = ''error getting the list of namespaces: '' @ err @ [NL]"
| "render (ResourcesError err) = ''error getting resources per namespace: '' @ err @ [NL]"
| "render (SecretsError ns err) =
     ''error getting secrets for gateway in namespace '' @ ns @ '': '' @ err @ [NL]"
| "render (AnalyzeError gwName ns err) =
     ''error analyzing certificate for gateway '' @ gwName @ '' in namespace '' @ ns
       @ '': '' @ err @ [NL]"
| "render (Certificate secretName gwName ns expiryDate) =
     ''Certificate '' @ secretName @ '' in gateway '' @ gwName @ '' in namespace '' @ ns
       @ '' expiration date is '' @ expiryDate @ [NL]"

fun printed :: "event list \<Rightarrow> line list" where
  "printed [] = []"
| "printed (Print l # evs) = l # printed evs"
| "printed (_ # evs) = printed evs"

definition stdout :: "event list \<Rightarrow> string" where
  "stdout evs = concat (map render (printed evs))"

subsection \<open>getNamespaces\<close>

fun nsLoop :: "string list \<Rightarrow> string list \<Rightarrow> string list" where
  "nsLoop [] nsNames = nsNames"
| "nsLoop (ns # items) nsNames =
     (if ns \<noteq> ''kube-system'' \<and> ns \<noteq> ''xcp-multicluster''
      then nsLoop items (nsNames @ [ns])
      else nsLoop items nsNames)"

definition getNamespaces :: "env \<Rightarrow> (string list \<times> string option) \<times> event list" where
  "getNamespaces e =
     (case listNamespaces e of
        Inl err \<Rightarrow> (([], Some (''unable to get the list of namespaces: '' @ err)),
                    [ListNamespacesCall])
      | Inr items \<Rightarrow> ((nsLoop items [], None), [ListNamespacesCall]))"

subsection \<open>Library functions the program calls\<close>

text \<open>
  The functions below belong to Go's standard library and to
  \<^verbatim>\<open>k8s.io/apimachinery\<close>, not to this repository; they are modelled after their
  library sources, as far as the program's calls reach.
\<close>

text \<open>\<^verbatim>\<open>strings.TrimPrefix\<close>.\<close>

definition TrimPrefix :: "string \<Rightarrow> string \<Rightarrow> string" where
  "TrimPrefix s pre = (if prefix pre s then drop (length pre) s else s)"

text \<open>
  \<^verbatim>\<open>strings.TrimSpace\<close> removes leading and trailing white space as
  \<^verbatim>\<open>unicode.IsSpace\<close> defines it, on the UTF-8 reading of the bytes. \<open>spaceRunes\<close>
  lists the UTF-8 encodings of these code points: the six ASCII ones, U+0085, U+00A0,
  U+1680, U+2000 to U+200A, U+2028, U+2029, U+202F, U+205F and U+3000. A byte sequence
  that is not valid UTF-8 reads as U+FFFD, which is not white space.
\<close>

definition spaceRunes :: "string list" where
  "spaceRunes =
     [[CHR 0x09], [CHR 0x0A], [CHR 0x0B], [CHR 0x0C], [CHR 0x0D], [CHR 0x20],
      [CHR 0xC2, CHR 0x85], [CHR 0xC2, CHR 0xA0],
      [CHR 0xE1, CHR 0x9A, CHR 0x80],
      [CHR 0xE2, CHR 0x80, CHR 0x80], [CHR 0xE2, CHR 0x80, CHR 0x81],
      [CHR 0xE2, CHR 0x80, CHR 0x82], [CHR 0xE2, CHR 0x80, CHR 0x83],
      [CHR 0xE2, CHR 0x80, CHR 0x84], [CHR 0xE2, CHR 0x80, CHR 0x85],
      [CHR 0xE2, CHR 0x80, CHR 0x86], [CHR 0xE2, CHR 0x80, CHR 0x87],
      [CHR 0xE2, CHR 0x80, CHR 0x88], [CHR 0xE2, CHR 0x80, CHR 0x89],
      [CHR 0xE2, CHR 0x80, CHR 0x8A],
      [CHR 0xE2, CHR 0x80, CHR 0xA8], [CHR 0xE2, CHR 0x80, CHR 0xA9],
      [CHR 0xE2, CHR 0x80, CHR 0xAF],
      [CHR 0xE2, CHR 0x81, CHR 0x9F],
      [CHR 0xE3, CHR 0x80, CHR 0x80]]"

text \<open>The width of the white-space rune a string starts (ends) with; 0 when there is none.\<close>

definition leadingSpace :: "string \<Rightarrow> nat" where
  "leadingSpace s = (case filter (\<lambda>r. prefix r s) spaceRunes of [] \<Rightarrow> 0 | r # _ \<Rightarrow> length r)"

definition trailingSpace :: "string \<Rightarrow> nat" where
  "trailingSpace s = (case filter (\<lambda>r. suffix r s) spaceRunes of [] \<Rightarrow> 0 | r # _ \<Rightarrow> length r)"

function trimLeftSpace :: "string \<Rightarrow> string" where
  "trimLeftSpace s =
     (if leadingSpace s = 0 then s else trimLeftSpace (drop (leadingSpace s) s))"
  by pat_completeness auto
termination
proof (relation "measure length")
  show "wf (measure length)" by simp
next
  fix s :: string
  assume space: "leadingSpace s \<noteq> 0"
  then have "s \<noteq> []" by (auto simp: leadingSpace_def spaceRunes_def)
  with space show "(drop (leadingSpace s) s, s) \<in> measure length" by simp
qed

function trimRightSpace :: "string \<Rightarrow> string" where
  "trimRightSpace s =
     (if trailingSpace s = 0 then s else trimRightSpace (take (length s - trailingSpace s) s))"
  by pat_completeness auto
termination
proof (relation "measure length")
  show "wf (measure length)" by simp
next
  fix s :: string
  assume space: "trailingSpace s \<noteq> 0"
  then have "s \<noteq> []" by (auto simp: trailingSpace_def spaceRunes_def)
  with space show "(take (length s - trailingSpace s) s, s) \<in> measure length" by simp
qed

declare trimLeftSpace.simps [simp del] trimRightSpace.simps [simp del]

definition TrimSpace :: "string \<Rightarrow> string" where
  "TrimSpace s = trimRightSpace (trimLeftSpace s)"

text \<open>
  \<^verbatim>\<open>bytes.ReplaceAll(s, old, new)\<close> for a non-empty \<open>old\<close>, the only way the program
  calls it: the occurrences of \<open>old\<close> are found from the left, without overlap. An empty
  \<open>old\<close> is not modelled.
\<close>

fun ReplaceAll :: "string \<Rightarrow> string \<Rightarrow> string \<Rightarrow> string" where
  "ReplaceAll [] (b # old) new = []"
| "ReplaceAll (c # s) (b # old) new =
     (if prefix (b # old) (c # s)
      then new @ ReplaceAll (drop (length old) s) (b # old) new
      else c # ReplaceAll s (b # old) new)"

text \<open>\<^verbatim>\<open>strconv.FormatInt(n, 10)\<close> for \<open>n \<ge> 0\<close>.\<close>

function decimal :: "nat \<Rightarrow> string" where
  "decimal n =
     (if n < 10 then [char_of (48 + n)]
      else decimal (n div 10) @ [char_of (48 + n mod 10)])"
  by pat_completeness auto
termination
  by (relation "measure id") auto

declare decimal.simps [simp del]

text \<open>
  \<^verbatim>\<open>base64.StdEncoding.DecodeString\<close>: the standard alphabet, padding \<^verbatim>\<open>=\<close>, not
  strict. \<open>decodeMap\<close> is the alphabet's table, \<open>None\<close> for the entry \<^verbatim>\<open>0xff\<close>.
\<close>

definition decodeMap :: "char \<Rightarrow> nat option" where
  "decodeMap c =
     (let n = (of_char c :: nat) in
      if 65 \<le> n \<and> n \<le> 90 then Some (n - 65)
      else if 97 \<le> n \<and> n \<le> 122 then Some (n - 71)
      else if 48 \<le> n \<and> n \<le> 57 then Some (n + 4)
      else if n = 43 then Some 62
      else if n = 47 then Some 63
      else None)"

text \<open>
  The bytes of one quantum: \<open>dbuf\<close> holds the 6-bit values read (2, 3 or 4 of them,
  the rest of the buffer is zero), and one byte less than that is written.
\<close>

definition quantumBytes :: "nat list \<Rightarrow> string" where
  "quantumBytes dbuf =
     (let d = dbuf @ replicate (4 - length dbuf) 0;
          val = ((d ! 0 * 64 + d ! 1) * 64 + d ! 2) * 64 + d ! 3
      in take (length dbuf - 1)
           [char_of (val div 65536), char_of (val div 256), char_of val])"

fun skipNewlines :: "string \<Rightarrow> nat \<Rightarrow> string \<times> nat" where
  "skipNewlines [] si = ([], si)"
| "skipNewlines (c # cs) si =
     (if c = NL \<or> c = CR then skipNewlines cs (si + 1) else (c # cs, si))"

text \<open>
  The end of a padded quantum, after its padding characters: newlines are skipped, and
  anything left is trailing garbage. The bytes of the quantum are written either way.
\<close>

definition finishPadding :: "nat list \<Rightarrow> string \<Rightarrow> nat \<Rightarrow> string \<times> nat option" where
  "finishPadding dbuf cs si =
     (case skipNewlines cs si of
        (rest, si') \<Rightarrow> (quantumBytes dbuf, if rest \<noteq> [] then Some si' else None))"

text \<open>
  A padding character was read at index \<open>si - 1\<close>, with \<open>length dbuf\<close> values in the
  buffer: none or one is incorrect padding; two want a second \<^verbatim>\<open>=\<close>.
\<close>

definition padding :: "nat list \<Rightarrow> string \<Rightarrow> nat \<Rightarrow> string \<times> nat option" where
  "padding dbuf cs si =
     (if length dbuf < 2 then ([], Some (si - 1))
      else if length dbuf = 2 then
        (case skipNewlines cs si of
           ([], si') \<Rightarrow> ([], Some si')
         | (c # rest, si') \<Rightarrow>
             if c \<noteq> CHR ''='' then ([], Some (si' - 1))
             else finishPadding dbuf rest (si' + 1))
      else finishPadding dbuf cs si)"

text \<open>
  \<^verbatim>\<open>Decode\<close> with its calls of \<^verbatim>\<open>decodeQuantum\<close>, as one loop over the input: \<open>dbuf\<close> is
  the buffer of the current quantum, \<open>si\<close> the index of the next input byte. The result
  is the decoded bytes and the position of the \<^verbatim>\<open>CorruptInputError\<close>, if any. The fast
  paths of \<^verbatim>\<open>Decode\<close> (eight or four alphabet bytes at once) give what this loop gives.
\<close>

fun decodeLoop :: "nat list \<Rightarrow> nat \<Rightarrow> string \<Rightarrow> string \<times> nat option" where
  "decodeLoop dbuf si [] = (if dbuf = [] then ([], None) else ([], Some (si - length dbuf)))"
| "decodeLoop dbuf si (c # cs) =
     (case decodeMap c of
        Some out \<Rightarrow>
          if length dbuf = 3
          then (case decodeLoop [] (si + 1) cs of
                  (bs, err) \<Rightarrow> (quantumBytes (dbuf @ [out]) @ bs, err))
          else decodeLoop (dbuf @ [out]) (si + 1) cs
      | None \<Rightarrow>
          if c = NL \<or> c = CR then decodeLoop dbuf (si + 1) cs
          else if c \<noteq> CHR ''='' then ([], Some si)
          else padding dbuf cs (si + 1))"

definition DecodeString :: "string \<Rightarrow> string \<times> nat option" where
  "DecodeString s = decodeLoop [] 0 s"

text \<open>\<^verbatim>\<open>CorruptInputError.Error()\<close>.\<close>

definition corruptInputError :: "nat \<Rightarrow> string" where
  "corruptInputError n = ''illegal base64 data at input byte '' @ decimal n"

text \<open>
  The accessors of \<^verbatim>\<open>unstructured\<close>. Each returns the value, \<^verbatim>\<open>found\<close> and the error;
  the error keeps the path, the offending value and the expected type its message is
  made of.
\<close>

datatype accessorError = AccessorError "string list" jv string

fun nestedLoop :: "jv \<Rightarrow> string list \<Rightarrow> string list \<Rightarrow> jv \<times> bool \<times> accessorError option" where
  "nestedLoop val seen [] = (val, True, None)"
| "nestedLoop val seen (field # fs) =
     (if val = JNull then (JNull, False, None)
      else (case val of
              JMap m \<Rightarrow>
                (case map_of m field of
                   None \<Rightarrow> (JNull, False, None)
                 | Some v \<Rightarrow> nestedLoop v (seen @ [field]) fs)
            | _ \<Rightarrow> (JNull, False,
                     Some (AccessorError (seen @ [field]) val ''map[string]interface{}''))))"

definition NestedFieldNoCopy :: "obj \<Rightarrow> string list \<Rightarrow> jv \<times> bool \<times> accessorError option" where
  "NestedFieldNoCopy obj fs = nestedLoop (JMap obj) [] fs"

definition NestedString :: "obj \<Rightarrow> string list \<Rightarrow> string \<times> bool \<times> accessorError option" where
  "NestedString obj fs =
     (case NestedFieldNoCopy obj fs of
        (val, found, err) \<Rightarrow>
          if \<not> found \<or> err \<noteq> None then ([], found, err)
          else (case val of
                  JStr s \<Rightarrow> (s, True, None)
                | _ \<Rightarrow> ([], False, Some (AccessorError fs val ''string''))))"

definition NestedSlice :: "obj \<Rightarrow> string list \<Rightarrow> jv list \<times> bool \<times> accessorError option" where
  "NestedSlice obj fs =
     (case NestedFieldNoCopy obj fs of
        (val, found, err) \<Rightarrow>
          if \<not> found \<or> err \<noteq> None then ([], found, err)
          else (case val of
                  JList xs \<Rightarrow> (xs, True, None)
                | _ \<Rightarrow> ([], False, Some (AccessorError fs val ''[]interface{}''))))"

definition NestedMap :: "obj \<Rightarrow> string list \<Rightarrow> obj \<times> bool \<times> accessorError option" where
  "NestedMap obj fs =
     (case NestedFieldNoCopy obj fs of
        (val, found, err) \<Rightarrow>
          if \<not> found \<or> err \<noteq> None then ([], found, err)
          else (case val of
                  JMap m \<Rightarrow> (m, True, None)
                | _ \<Rightarrow> ([], False, Some (AccessorError fs val ''map[string]interface{}''))))"

definition getNestedString :: "obj \<Rightarrow> string list \<Rightarrow> string" where
  "getNestedString obj fs =
     (case NestedString obj fs of
        (val, found, err) \<Rightarrow> if \<not> found \<or> err \<noteq> None then [] else val)"

definition GetName :: "obj \<Rightarrow> string" where
  "GetName gw = getNestedString gw [''metadata'', ''name'']"

definition GetNamespace :: "obj \<Rightarrow> string" where
  "GetNamespace gw = getNestedString gw [''metadata'', ''namespace'']"

text \<open>What \<^verbatim>\<open>fmt\<close> prints for an accessor error, or for \<^verbatim>\<open>nil\<close>, under \<^verbatim>\<open>%v\<close>.\<close>

fun goType :: "jv \<Rightarrow> string" where
  "goType JNull = ''<nil>''"
| "goType (JBool _) = ''bool''"
| "goType (JInt _) = ''int64''"
| "goType (JFloat _) = ''float64''"
| "goType (JStr _) = ''string''"
| "goType (JList _) = ''[]interface {}''"
| "goType (JMap _) = ''map[string]interface {}''"

fun jsonPath :: "string list \<Rightarrow> string" where
  "jsonPath [] = ''.''"
| "jsonPath [f] = ''.'' @ f"
| "jsonPath (f # fs) = ''.'' @ f @ jsonPath fs"

fun errV :: "(jv \<Rightarrow> string) \<Rightarrow> accessorError option \<Rightarrow> string" where
  "errV fv None = ''<nil>''"
| "errV fv (Some (AccessorError fs val expected)) =
     jsonPath fs @ '' accessor error: '' @ fv val @ '' is of the type '' @ goType val
       @ '', expected '' @ expected"

subsection \<open>getGatewaySecrets\<close>

text \<open>
  The loop over the gateway's servers; \<open>secrets\<close> is the slice built so far. A secret
  is fetched from the namespace the gateway object itself names.
\<close>

fun serversLoop ::
  "env \<Rightarrow> obj \<Rightarrow> jv list \<Rightarrow> secret list \<Rightarrow> (secret list \<times> string option) \<times> event list" where
  "serversLoop e gw [] secrets = ((secrets, None), [])"
| "serversLoop e gw (serverObj # servers) secrets =
     (case serverObj of
        JMap server \<Rightarrow>
          (case NestedMap server [''tls''] of
             (tls, found, err) \<Rightarrow>
               if \<not> found \<or> err \<noteq> None then serversLoop e gw servers secrets
               else
                 (case NestedString tls [''mode''] of
                    (mode, found, err) \<Rightarrow>
                      if \<not> found \<or> err \<noteq> None \<or> mode = ''PASSTHROUGH''
                      then serversLoop e gw servers secrets
                      else
                        (case NestedString tls [''credentialName''] of
                           (credentialName, found, err) \<Rightarrow>
                             if \<not> found \<or> err \<noteq> None then serversLoop e gw servers secrets
                             else
                               (case getSecret e (GetNamespace gw) credentialName of
                                  Inl err \<Rightarrow>
                                    (([], Some (''error getting secret '' @ credentialName
                                                 @ '' in namespace '' @ GetNamespace gw
                                                 @ '': '' @ err)),
                                     [GetSecretCall (GetNamespace gw) credentialName])
                                | Inr secret \<Rightarrow>
                                    (case serversLoop e gw servers (secrets @ [secret]) of
                                       (res, evs) \<Rightarrow>
                                         (res,
                                          GetSecretCall (GetNamespace gw) credentialName
                                            # evs))))))
      | _ \<Rightarrow> (([], Some ''invalid server object found''), []))"

definition getGatewaySecrets ::
  "env \<Rightarrow> obj \<Rightarrow> (secret list \<times> string option) \<times> event list" where
  "getGatewaySecrets e gw =
     (case NestedSlice gw [''spec'', ''servers''] of
        (servers, found, err) \<Rightarrow>
          if \<not> found \<or> err \<noteq> None
          then (([], Some (''error getting gateway servers: '' @ errV (fmtV e) err)), [])
          else serversLoop e gw servers [])"

subsection \<open>analyzeCertificate\<close>

definition analyzeCertificate :: "env \<Rightarrow> secret \<Rightarrow> (string \<times> string option) \<times> event list" where
  "analyzeCertificate e secret =
     (case Data secret ''tls.crt'' of
        None \<Rightarrow> (([], Some ''tls.crt not found in secret''), [])
      | Some certData \<Rightarrow>
          (let certData1 = ReplaceAll certData (''-----BEGIN CERTIFICATE-----'' @ [NL]) [];
               certData2 = ReplaceAll certData1 (NL # ''-----END CERTIFICATE-----'') []
           in case DecodeString certData2 of
                (certBytes, Some n) \<Rightarrow>
                  (([], Some (''error decoding certificate data: '' @ corruptInputError n)), [])
              | (certBytes, None) \<Rightarrow>
                  (case openssl e certBytes of
                     Inl err \<Rightarrow> (([], Some (''openssl error: '' @ err)), [OpensslCall certBytes])
                   | Inr output \<Rightarrow>
                       ((TrimSpace (TrimPrefix output ''notAfter=''), None),
                        [OpensslCall certBytes]))))"

subsection \<open>getNsGateways\<close>

text \<open>The three nested loops, innermost first.\<close>

fun secretsLoop :: "env \<Rightarrow> string \<Rightarrow> obj \<Rightarrow> secret list \<Rightarrow> event list" where
  "secretsLoop e ns gw [] = []"
| "secretsLoop e ns gw (secret # secrets) =
     (case analyzeCertificate e secret of
        ((expiryDate, Some err), evs) \<Rightarrow>
          evs @ Print (AnalyzeError (GetName gw) ns err) # secretsLoop e ns gw secrets
      | ((expiryDate, None), evs) \<Rightarrow>
          evs @ Print (Certificate (Name secret) (GetName gw) ns expiryDate)
            # secretsLoop e ns gw secrets)"

fun gatewaysLoop :: "env \<Rightarrow> string \<Rightarrow> obj list \<Rightarrow> event list" where
  "gatewaysLoop e ns [] = []"
| "gatewaysLoop e ns (gw # items) =
     (case getGatewaySecrets e gw of
        ((secrets, Some err), evs) \<Rightarrow>
          evs @ Print (SecretsError ns err) # gatewaysLoop e ns items
      | ((secrets, None), evs) \<Rightarrow>
          evs @ (if length secrets > 0 then secretsLoop e ns gw secrets else [])
            @ gatewaysLoop e ns items)"

fun getNsGateways :: "env \<Rightarrow> string list \<Rightarrow> string option \<times> event list" where
  "getNsGateways e [] = (None, [])"
| "getNsGateways e (ns # nsList) =
     (case listGateways e ns of
        Inl err \<Rightarrow> (Some err, [ListGatewaysCall ns])
      | Inr items \<Rightarrow>
          (case getNsGateways e nsList of
             (err, evs) \<Rightarrow>
               (err,
                ListGatewaysCall ns
                  # (if length items > 0 then gatewaysLoop e ns items else []) @ evs)))"

subsection \<open>main\<close>

definition k8sClient :: "env \<Rightarrow> string option" where
  "k8sClient e =
     (case clientConfig e of
        Some err \<Rightarrow> Some (''unable to get k8s config file: '' @ err)
      | None \<Rightarrow>
          (case newForConfig e of
             Some err \<Rightarrow> Some (''unable to create k8s client: '' @ err)
           | None \<Rightarrow>
               (case newDynForConfig e of
                  Some err \<Rightarrow> Some (''unable to create k8s dynamic client: '' @ err)
                | None \<Rightarrow> None)))"

definition main :: "env \<Rightarrow> event list" where
  "main e =
     (case k8sClient e of
        Some err \<Rightarrow> [Print (ClientsError err)]
      | None \<Rightarrow>
          (case getNamespaces e of
             ((nsList, Some err), evs) \<Rightarrow> evs @ [Print (NamespacesError err)]
           | ((nsList, None), evs) \<Rightarrow>
               (case getNsGateways e nsList of
                  (Some err, evs') \<Rightarrow> evs @ evs' @ [Print (ResourcesError err)]
                | (None, evs') \<Rightarrow> evs @ evs')))"

subsection \<open>The server policy in the specification's words\<close>

text \<open>
  A server is terminated when it is a record with a \<^verbatim>\<open>tls\<close> block whose \<^verbatim>\<open>mode\<close> is
  present and not \<^verbatim>\<open>PASSTHROUGH\<close> and whose \<^verbatim>\<open>credentialName\<close> is present; \<open>terminated\<close>
  gives the credential name of such a server. This is not a function of the program:
  the properties below compare the program with it.
\<close>

fun terminated :: "jv \<Rightarrow> string option" where
  "terminated (JMap server) =
     (case map_of server ''tls'' of
        Some (JMap tls) \<Rightarrow>
          (case map_of tls ''mode'' of
             Some (JStr mode) \<Rightarrow>
               if mode = ''PASSTHROUGH'' then None
               else (case map_of tls ''credentialName'' of
                       Some (JStr credentialName) \<Rightarrow> Some credentialName
                     | _ \<Rightarrow> None)
           | _ \<Rightarrow> None)
      | _ \<Rightarrow> None)"
| "terminated _ = None"

text \<open>
  A server entry makes the extraction fail when it is not a record, or when it is
  terminated and its secret cannot be fetched from namespace \<open>ns\<close>.
\<close>

definition serverFails :: "env \<Rightarrow> string \<Rightarrow> jv \<Rightarrow> bool" where
  "serverFails e ns s =
     (case s of
        JMap server \<Rightarrow>
          (case terminated s of
             Some credentialName \<Rightarrow> isl (getSecret e ns credentialName)
           | None \<Rightarrow> False)
      | _ \<Rightarrow> True)"

subsection \<open>An example cluster\<close>

text \<open>
  Namespace \<^verbatim>\<open>shop\<close> with the gateway \<^verbatim>\<open>edge\<close>, whose one server terminates TLS with the
  secret \<^verbatim>\<open>shop-cert\<close>; the certificate is a line-wrapped PEM block. Beside it, a
  pass-through variant of the server, a gateway without servers, a secret without
  certificate, and one whose certificate is not base64.
\<close>

definition tlsServer :: "string \<Rightarrow> string \<Rightarrow> jv" where
  "tlsServer mode credentialName =
     JMap [(''port'', JMap [(''number'', JInt 443)]),
           (''tls'', JMap [(''mode'', JStr mode), (''credentialName'', JStr credentialName)])]"

definition gateway :: "string \<Rightarrow> string \<Rightarrow> jv list \<Rightarrow> obj" where
  "gateway ns name servers =
     [(''metadata'', JMap [(''name'', JStr name), (''namespace'', JStr ns)]),
      (''spec'', JMap [(''servers'', JList servers)])]"

definition edge :: obj where
  "edge = gateway ''shop'' ''edge'' [tlsServer ''SIMPLE'' ''shop-cert'']"

definition broken :: "string \<Rightarrow> obj" where
  "broken name = [(''metadata'', JMap [(''name'', JStr name), (''namespace'', JStr ''shop'')])]"

definition shopCert :: secret where
  "shopCert =
     \<lparr>Name = ''shop-cert'',
      Data = [''tls.crt'' \<mapsto>
        ''-----BEGIN CERTIFICATE-----'' @ [NL] @ ''QUJD'' @ [NL] @ ''RUZH'' @ [NL]
          @ ''-----END CERTIFICATE-----'' @ [NL]]\<rparr>"

definition noCert :: secret where
  "noCert = \<lparr>Name = ''no-cert'', Data = [''tls.key'' \<mapsto> ''QUJD'']\<rparr>"

definition badCert :: secret where
  "badCert = \<lparr>Name = ''bad-cert'', Data = [''tls.crt'' \<mapsto> ''QUJD RUZH'']\<rparr>"

definition shop :: env where
  "shop =
     \<lparr>clientConfig = None, newForConfig = None, newDynForConfig = None,
      listNamespaces = Inr [''kube-system'', ''shop'', ''xcp-multicluster'', ''web''],
      listGateways = (\<lambda>ns. if ns = ''shop'' then Inr [edge]
                            else if ns = ''web'' then Inl ''forbidden'' else Inr []),
      getSecret = (\<lambda>ns name. if ns = ''shop'' \<and> name = ''shop-cert'' then Inr shopCert
                              else if ns = ''shop'' \<and> name = ''no-cert'' then Inr noCert
                              else Inl ''not found''),
      openssl = (\<lambda>certBytes. Inr (''notAfter=Jan  1 00:00:00 2030 GMT'' @ [NL])),
      fmtV = (\<lambda>val. [])\<rparr>"

subsection \<open>Reading the output\<close>

text \<open>The namespace a line of the walker is about; the three lines of \<^verbatim>\<open>main\<close> have none.\<close>

fun lineNamespace :: "line \<Rightarrow> string option" where
  "lineNamespace (SecretsError ns err) = Some ns"
| "lineNamespace (AnalyzeError gwName ns err) = Some ns"
| "lineNamespace (Certificate secretName gwName ns expiryDate) = Some ns"
| "lineNamespace _ = None"

text \<open>The namespaces whose gateways were asked for, in the order of the calls.\<close>

fun scanned :: "event list \<Rightarrow> string list" where
  "scanned [] = []"
| "scanned (ListGatewaysCall ns # evs) = ns # scanned evs"
| "scanned (_ # evs) = scanned evs"

section \<open>Properties\<close>

subsection \<open>The accessors on the paths the program reads\<close>

lemma NestedFieldNoCopy_single:
  "NestedFieldNoCopy m [f] = (case map_of m f of None \<Rightarrow> (JNull, False, None) | Some v \<Rightarrow> (v, True, None))"
  by (simp add: NestedFieldNoCopy_def split: option.splits)

lemma NestedMap_single:
  "NestedMap m [f] =
     (case map_of m f of
        None \<Rightarrow> ([], False, None)
      | Some (JMap t) \<Rightarrow> (t, True, None)
      | Some v \<Rightarrow> ([], False, Some (AccessorError [f] v ''map[string]interface{}'')))"
  by (simp add: NestedMap_def NestedFieldNoCopy_single split: option.splits jv.splits)

lemma NestedString_single:
  "NestedString m [f] =
     (case map_of m f of
        None \<Rightarrow> ([], False, None)
      | Some (JStr t) \<Rightarrow> (t, True, None)
      | Some v \<Rightarrow> ([], False, Some (AccessorError [f] v ''string'')))"
  by (simp add: NestedString_def NestedFieldNoCopy_single split: option.splits jv.splits)

lemma NestedSlice_spec_servers:
  "NestedSlice gw [''spec'', ''servers''] =
     (case map_of gw ''spec'' of
        None \<Rightarrow> ([], False, None)
      | Some JNull \<Rightarrow> ([], False, None)
      | Some (JMap spec) \<Rightarrow>
          (case map_of spec ''servers'' of
             None \<Rightarrow> ([], False, None)
           | Some (JList xs) \<Rightarrow> (xs, True, None)
           | Some v \<Rightarrow> ([], False, Some (AccessorError [''spec'', ''servers''] v ''[]interface{}'')))
      | Some v \<Rightarrow>
          ([], False, Some (AccessorError [''spec'', ''servers''] v ''map[string]interface{}'')))"
  by (simp add: NestedSlice_def NestedFieldNoCopy_def split: option.splits jv.splits)

subsection \<open>The server loop\<close>

lemma serversLoop_step:
  "serversLoop e gw (JMap server # servers) secrets =
     (case terminated (JMap server) of
        None \<Rightarrow> serversLoop e gw servers secrets
      | Some c \<Rightarrow>
          (case getSecret e (GetNamespace gw) c of
             Inl err \<Rightarrow>
               (([], Some (''error getting secret '' @ c @ '' in namespace '' @ GetNamespace gw
                            @ '': '' @ err)),
                [GetSecretCall (GetNamespace gw) c])
           | Inr secret \<Rightarrow>
               (fst (serversLoop e gw servers (secrets @ [secret])),
                GetSecretCall (GetNamespace gw) c
                  # snd (serversLoop e gw servers (secrets @ [secret])))))"
  by (simp add: NestedMap_single NestedString_single split: option.splits jv.splits sum.splits prod.splits)

lemma serversLoop_invalid:
  "\<forall>m. s \<noteq> JMap m \<Longrightarrow> serversLoop e gw (s # servers) secrets = (([], Some ''invalid server object found''), [])"
  by (cases s) simp_all

lemma serverFails_step:
  "\<not> serverFails e (GetNamespace gw) s \<Longrightarrow>
     \<exists>m. s = JMap m \<and>
       (terminated s = None \<or> (\<exists>c sec. terminated s = Some c \<and> getSecret e (GetNamespace gw) c = Inr sec))"
proof (cases s)
  case (JMap m)
  assume ok: "\<not> serverFails e (GetNamespace gw) s"
  show ?thesis
  proof (cases "terminated s")
    case None
    with JMap show ?thesis by blast
  next
    case (Some c)
    with ok JMap have "\<not> isl (getSecret e (GetNamespace gw) c)"
      by (simp add: serverFails_def del: terminated.simps)
    then obtain sec where "getSecret e (GetNamespace gw) c = Inr sec"
      by (cases "getSecret e (GetNamespace gw) c") simp_all
    with Some JMap show ?thesis by blast
  qed
qed (simp_all add: serverFails_def)

lemma serverFails_iff:
  "serverFails e ns s \<longleftrightarrow>
     (\<forall>m. s \<noteq> JMap m) \<or> (\<exists>c err. terminated s = Some c \<and> getSecret e ns c = Inl err)"
  by (cases s) (auto simp: serverFails_def isl_def simp del: terminated.simps split: option.splits)

lemma terminated_Some_iff:
  "terminated s = Some c \<longleftrightarrow>
     (\<exists>server tls mode. s = JMap server \<and> map_of server ''tls'' = Some (JMap tls)
        \<and> map_of tls ''mode'' = Some (JStr mode) \<and> mode \<noteq> ''PASSTHROUGH''
        \<and> map_of tls ''credentialName'' = Some (JStr c))"
  by (cases s) (auto split: option.splits jv.splits)

lemma serversLoop_ok:
  "\<forall>s\<in>set servers. \<not> serverFails e (GetNamespace gw) s \<Longrightarrow>
     \<exists>fetched.
       serversLoop e gw servers acc =
         ((acc @ fetched, None),
          map (GetSecretCall (GetNamespace gw)) (List.map_filter terminated servers))
       \<and> list_all2 (\<lambda>c sec. getSecret e (GetNamespace gw) c = Inr sec)
            (List.map_filter terminated servers) fetched"
proof (induction servers arbitrary: acc)
  case Nil
  then show ?case by simp
next
  case (Cons s servers)
  from Cons.prems have ok: "\<not> serverFails e (GetNamespace gw) s"
    and rest: "\<forall>s\<in>set servers. \<not> serverFails e (GetNamespace gw) s" by simp_all
  from serverFails_step [OF ok] obtain m where s: "s = JMap m"
    and t: "terminated s = None \<or>
      (\<exists>c sec. terminated s = Some c \<and> getSecret e (GetNamespace gw) c = Inr sec)"
    by blast
  from t show ?case
  proof
    assume none: "terminated s = None"
    from Cons.IH [OF rest, of acc] none s show ?thesis
      by (simp add: serversLoop_step del: serversLoop.simps terminated.simps)
  next
    assume "\<exists>c sec. terminated s = Some c \<and> getSecret e (GetNamespace gw) c = Inr sec"
    then obtain c sec where c: "terminated s = Some c"
      and sec: "getSecret e (GetNamespace gw) c = Inr sec" by blast
    from Cons.IH [OF rest, of "acc @ [sec]"] obtain fetched where
      f: "serversLoop e gw servers (acc @ [sec]) =
            (((acc @ [sec]) @ fetched, None),
             map (GetSecretCall (GetNamespace gw)) (List.map_filter terminated servers))"
      and l: "list_all2 (\<lambda>c sec. getSecret e (GetNamespace gw) c = Inr sec)
            (List.map_filter terminated servers) fetched" by blast
    have "serversLoop e gw (s # servers) acc =
            ((acc @ (sec # fetched), None),
             map (GetSecretCall (GetNamespace gw)) (List.map_filter terminated (s # servers)))"
      using c sec f s
      by (simp add: serversLoop_step del: serversLoop.simps terminated.simps)
    moreover have "list_all2 (\<lambda>c sec. getSecret e (GetNamespace gw) c = Inr sec)
            (List.map_filter terminated (s # servers)) (sec # fetched)"
      using c sec l by simp
    ultimately show ?thesis by blast
  qed
qed

lemma serversLoop_prefix_ok:
  "\<forall>s\<in>set pre. \<not> serverFails e (GetNamespace gw) s \<Longrightarrow>
     \<exists>fetched.
       serversLoop e gw (pre @ rest) acc =
         (fst (serversLoop e gw rest (acc @ fetched)),
          map (GetSecretCall (GetNamespace gw)) (List.map_filter terminated pre)
            @ snd (serversLoop e gw rest (acc @ fetched)))"
proof (induction pre arbitrary: acc)
  case Nil
  have "serversLoop e gw ([] @ rest) acc =
         (fst (serversLoop e gw rest (acc @ [])),
          map (GetSecretCall (GetNamespace gw)) (List.map_filter terminated [])
            @ snd (serversLoop e gw rest (acc @ [])))"
    by simp
  then show ?case by blast
next
  case (Cons s pre)
  from Cons.prems have ok: "\<not> serverFails e (GetNamespace gw) s"
    and rest: "\<forall>s\<in>set pre. \<not> serverFails e (GetNamespace gw) s" by simp_all
  from serverFails_step [OF ok] obtain m where s: "s = JMap m"
    and t: "terminated s = None \<or>
      (\<exists>c sec. terminated s = Some c \<and> getSecret e (GetNamespace gw) c = Inr sec)"
    by blast
  from t show ?case
  proof
    assume none: "terminated s = None"
    from Cons.IH [OF rest, of acc] none s show ?thesis
      by (simp add: serversLoop_step del: serversLoop.simps terminated.simps)
  next
    assume "\<exists>c sec. terminated s = Some c \<and> getSecret e (GetNamespace gw) c = Inr sec"
    then obtain c sec where c: "terminated s = Some c"
      and sec: "getSecret e (GetNamespace gw) c = Inr sec" by blast
    from Cons.IH [OF rest, of "acc @ [sec]"] obtain fetched where
      f: "serversLoop e gw (pre @ rest) (acc @ [sec]) =
         (fst (serversLoop e gw rest ((acc @ [sec]) @ fetched)),
          map (GetSecretCall (GetNamespace gw)) (List.map_filter terminated pre)
            @ snd (serversLoop e gw rest ((acc @ [sec]) @ fetched)))" by blast
    have "serversLoop e gw ((s # pre) @ rest) acc =
         (fst (serversLoop e gw rest (acc @ (sec # fetched))),
          map (GetSecretCall (GetNamespace gw)) (List.map_filter terminated (s # pre))
            @ snd (serversLoop e gw rest (acc @ (sec # fetched))))"
      using c sec f s
      by (simp add: serversLoop_step del: serversLoop.simps terminated.simps)
    then show ?thesis by blast
  qed
qed

text \<open>What a failing server leaves: the error message and the events.\<close>

lemma serversLoop_failing_head:
  "serverFails e (GetNamespace gw) s \<Longrightarrow>
     serversLoop e gw (s # post) acc = serversLoop e gw [s] []
     \<and> fst (fst (serversLoop e gw [s] [])) = []
     \<and> ((\<forall>m. s \<noteq> JMap m)
           \<and> serversLoop e gw [s] [] = (([], Some ''invalid server object found''), [])
         \<or> (\<exists>c err. terminated s = Some c \<and> getSecret e (GetNamespace gw) c = Inl err
              \<and> serversLoop e gw [s] [] =
                  (([], Some (''error getting secret '' @ c @ '' in namespace ''
                               @ GetNamespace gw @ '': '' @ err)),
                   [GetSecretCall (GetNamespace gw) c])))"
proof (cases s)
  case (JMap m)
  assume "serverFails e (GetNamespace gw) s"
  with JMap obtain c err where "terminated s = Some c" "getSecret e (GetNamespace gw) c = Inl err"
    by (auto simp: serverFails_def isl_def split: option.splits)
  with JMap show ?thesis
    by (simp add: serversLoop_step del: serversLoop.simps terminated.simps)
qed simp_all

lemma serversLoop_err_iff:
  "snd (fst (serversLoop e gw servers acc)) \<noteq> None
     \<longleftrightarrow> (\<exists>s\<in>set servers. serverFails e (GetNamespace gw) s)"
proof (cases "\<exists>s\<in>set servers. serverFails e (GetNamespace gw) s")
  case False
  with serversLoop_ok [of servers e gw acc] show ?thesis by auto
next
  case True
  then obtain pre s post where sp: "servers = pre @ s # post"
    and s: "serverFails e (GetNamespace gw) s"
    and pre: "\<forall>x\<in>set pre. \<not> serverFails e (GetNamespace gw) x"
    using split_list_first_prop [of servers "serverFails e (GetNamespace gw)"] by blast
  from serversLoop_prefix_ok [OF pre, of "s # post" acc] obtain fetched where
    "serversLoop e gw (pre @ s # post) acc =
         (fst (serversLoop e gw (s # post) (acc @ fetched)),
          map (GetSecretCall (GetNamespace gw)) (List.map_filter terminated pre)
            @ snd (serversLoop e gw (s # post) (acc @ fetched)))" by blast
  moreover from serversLoop_failing_head [OF s, of post "acc @ fetched"]
  have "snd (fst (serversLoop e gw (s # post) (acc @ fetched))) \<noteq> None" by auto
  ultimately show ?thesis using True sp by simp
qed

lemma serversLoop_events:
  "ev \<in> set (snd (serversLoop e gw servers acc)) \<Longrightarrow> \<exists>c. ev = GetSecretCall (GetNamespace gw) c"
proof (induction servers arbitrary: acc)
  case Nil
  then show ?case by simp
next
  case (Cons s servers)
  show ?case
  proof (cases s)
    case (JMap m)
    with Cons show ?thesis
      by (auto simp: serversLoop_step simp del: serversLoop.simps terminated.simps
          split: option.splits sum.splits)
  qed (use Cons.prems in simp_all)
qed

lemma getGatewaySecrets_listed:
  "map_of gw ''spec'' = Some (JMap spec) \<Longrightarrow> map_of spec ''servers'' = Some (JList servers) \<Longrightarrow>
     getGatewaySecrets e gw = serversLoop e gw servers []"
  by (simp add: getGatewaySecrets_def NestedSlice_spec_servers)

lemma getGatewaySecrets_unlisted:
  "\<forall>spec servers. map_of gw ''spec'' = Some (JMap spec) \<longrightarrow> map_of spec ''servers'' \<noteq> Some (JList servers) \<Longrightarrow>
     \<exists>a. getGatewaySecrets e gw = (([], Some (''error getting gateway servers: '' @ a)), [])"
  by (auto simp: getGatewaySecrets_def NestedSlice_spec_servers split: option.splits jv.splits)

lemma getGatewaySecrets_events:
  "ev \<in> set (snd (getGatewaySecrets e gw)) \<Longrightarrow> \<exists>c. ev = GetSecretCall (GetNamespace gw) c"
  by (auto simp: getGatewaySecrets_def split: prod.splits if_splits dest: serversLoop_events)

lemma getGatewaySecrets_ok_shape:
  assumes "getGatewaySecrets e gw = ((secrets, None), evs)"
  shows "\<exists>spec servers. map_of gw ''spec'' = Some (JMap spec)
     \<and> map_of spec ''servers'' = Some (JList servers)
     \<and> list_all2 (\<lambda>c sec. getSecret e (GetNamespace gw) c = Inr sec)
         (List.map_filter terminated servers) secrets
     \<and> evs = map (GetSecretCall (GetNamespace gw)) (List.map_filter terminated servers)"
proof -
  from assms getGatewaySecrets_unlisted [of gw e]
  obtain spec servers where sp: "map_of gw ''spec'' = Some (JMap spec)"
    and sv: "map_of spec ''servers'' = Some (JList servers)"
    by fastforce
  with assms have loop: "serversLoop e gw servers [] = ((secrets, None), evs)"
    by (simp add: getGatewaySecrets_listed)
  with serversLoop_err_iff [of e gw servers "[]"]
  have "\<forall>s\<in>set servers. \<not> serverFails e (GetNamespace gw) s" by simp
  from serversLoop_ok [OF this, of "[]"] loop sp sv show ?thesis by auto
qed

lemma extracted_secret_origin:
  assumes "getGatewaySecrets e gw = ((secrets, None), evs)" and "secret \<in> set secrets"
  shows "\<exists>spec servers. map_of gw ''spec'' = Some (JMap spec)
     \<and> map_of spec ''servers'' = Some (JList servers)
     \<and> (\<exists>s\<in>set servers. \<exists>c. terminated s = Some c
           \<and> getSecret e (GetNamespace gw) c = Inr secret)"
proof -
  from getGatewaySecrets_ok_shape [OF assms(1)] obtain spec servers where
    sp: "map_of gw ''spec'' = Some (JMap spec)"
    and sv: "map_of spec ''servers'' = Some (JList servers)"
    and l: "list_all2 (\<lambda>c sec. getSecret e (GetNamespace gw) c = Inr sec)
         (List.map_filter terminated servers) secrets" by blast
  from assms(2) obtain i where i: "i < length secrets" "secrets ! i = secret"
    by (auto simp: in_set_conv_nth)
  from l i have len: "i < length (List.map_filter terminated servers)"
    and f: "getSecret e (GetNamespace gw) (List.map_filter terminated servers ! i) = Inr secret"
    by (auto simp: list_all2_conv_all_nth)
  define c where "c = List.map_filter terminated servers ! i"
  from len have "c \<in> set (List.map_filter terminated servers)"
    unfolding c_def by (rule nth_mem)
  note f = f [folded c_def]
  with \<open>c \<in> set (List.map_filter terminated servers)\<close>
  obtain s where "s \<in> set servers" "terminated s = Some c"
    by (auto simp: List.map_filter_def)
  with sp sv f show ?thesis by blast
qed

subsection \<open>The walker's loops\<close>

lemma secretsLoop_append:
  "secretsLoop e ns gw (xs @ ys) = secretsLoop e ns gw xs @ secretsLoop e ns gw ys"
  by (induction xs) (simp_all split: prod.splits option.splits)

lemma gatewaysLoop_append:
  "gatewaysLoop e ns (xs @ ys) = gatewaysLoop e ns xs @ gatewaysLoop e ns ys"
  by (induction xs) (simp_all split: prod.splits option.splits)

lemma secretsLoop_guard:
  "(if secrets \<noteq> [] then secretsLoop e ns gw secrets else []) = secretsLoop e ns gw secrets"
  by (cases secrets) simp_all

lemma gatewaysLoop_guard:
  "(if items \<noteq> [] then gatewaysLoop e ns items else []) = gatewaysLoop e ns items"
  by (cases items) simp_all

lemma analyzeCertificate_events:
  "analyzeCertificate e secret = (res, evs) \<Longrightarrow> evs = [] \<or> (\<exists>certBytes. evs = [OpensslCall certBytes])"
  by (auto simp: analyzeCertificate_def Let_def split: option.splits prod.splits sum.splits)

lemma getNsGateways_append:
  "fst (getNsGateways e pre) = None \<Longrightarrow>
     getNsGateways e (pre @ rest) =
       (fst (getNsGateways e rest), snd (getNsGateways e pre) @ snd (getNsGateways e rest))"
  by (induction pre) (auto split: sum.splits prod.splits)

lemma getNsGateways_ok_lists:
  "fst (getNsGateways e nsList) = None \<Longrightarrow> n \<in> set nsList \<Longrightarrow> \<exists>items. listGateways e n = Inr items"
  by (induction nsList) (auto split: sum.splits prod.splits)

text \<open>A failed extraction is skipped, and the gateways around it are scanned as without it.\<close>

lemma extraction_failure_is_local:
  "getGatewaySecrets e gw = ((secrets, Some err), evs) \<Longrightarrow>
     gatewaysLoop e ns (pre @ gw # post) =
       gatewaysLoop e ns pre @ evs @ Print (SecretsError ns err) # gatewaysLoop e ns post"
  by (simp add: gatewaysLoop_append)

subsection \<open>What the walker prints\<close>

lemma printed_append: "printed (xs @ ys) = printed xs @ printed ys"
  by (induction xs rule: printed.induct) simp_all

lemma Print_in_printed: "Print l \<in> set evs \<longleftrightarrow> l \<in> set (printed evs)"
  by (induction evs rule: printed.induct) auto

lemma analyzeCertificate_printed:
  "analyzeCertificate e secret = (res, evs) \<Longrightarrow> printed evs = []"
  by (drule analyzeCertificate_events) auto

lemma getGatewaySecrets_printed: "printed (snd (getGatewaySecrets e gw)) = []"
proof -
  have "\<forall>l. Print l \<notin> set (snd (getGatewaySecrets e gw))"
    by (auto dest: getGatewaySecrets_events)
  then have "set (printed (snd (getGatewaySecrets e gw))) = {}"
    by (auto simp: Print_in_printed)
  then show ?thesis by simp
qed

lemma secretsLoop_printed:
  "l \<in> set (printed (secretsLoop e ns gw secrets)) \<Longrightarrow>
     (\<exists>err. l = AnalyzeError (GetName gw) ns err)
     \<or> (\<exists>secret\<in>set secrets. \<exists>expiryDate evs.
           analyzeCertificate e secret = ((expiryDate, None), evs)
           \<and> l = Certificate (Name secret) (GetName gw) ns expiryDate)"
proof (induction secrets)
  case Nil
  then show ?case by simp
next
  case (Cons secret secrets)
  obtain x err evs where a: "analyzeCertificate e secret = ((x, err), evs)"
    by (metis surj_pair)
  from analyzeCertificate_printed [OF a] have p: "printed evs = []" .
  from Cons a p show ?case
    by (cases err) (auto simp: printed_append)
qed

lemma gatewaysLoop_printed:
  "l \<in> set (printed (gatewaysLoop e ns items)) \<Longrightarrow>
     (\<exists>err. l = SecretsError ns err)
     \<or> (\<exists>gw\<in>set items. \<exists>secrets gevs.
           getGatewaySecrets e gw = ((secrets, None), gevs)
           \<and> ((\<exists>err. l = AnalyzeError (GetName gw) ns err)
               \<or> (\<exists>secret\<in>set secrets. \<exists>expiryDate evs.
                     analyzeCertificate e secret = ((expiryDate, None), evs)
                     \<and> l = Certificate (Name secret) (GetName gw) ns expiryDate)))"
proof (induction items)
  case Nil
  then show ?case by simp
next
  case (Cons gw items)
  obtain secrets err gevs where g: "getGatewaySecrets e gw = ((secrets, err), gevs)"
    by (metis surj_pair)
  from getGatewaySecrets_printed [of e gw] g have p: "printed gevs = []" by simp
  show ?case
  proof (cases err)
    case (Some msg)
    with Cons g p show ?thesis by (auto simp: printed_append)
  next
    case None
    with Cons.prems g p have "l \<in> set (printed (secretsLoop e ns gw secrets))
        \<or> l \<in> set (printed (gatewaysLoop e ns items))"
      by (auto simp: printed_append secretsLoop_guard)
    then show ?thesis
    proof
      assume "l \<in> set (printed (secretsLoop e ns gw secrets))"
      from secretsLoop_printed [OF this] g None show ?thesis by auto
    next
      assume "l \<in> set (printed (gatewaysLoop e ns items))"
      from Cons.IH [OF this] show ?thesis by auto
    qed
  qed
qed

lemma getNsGateways_printed:
  "l \<in> set (printed (snd (getNsGateways e nsList))) \<Longrightarrow>
     \<exists>ns\<in>set nsList. \<exists>items. listGateways e ns = Inr items
        \<and> l \<in> set (printed (gatewaysLoop e ns items))"
proof (induction nsList)
  case Nil
  then show ?case by simp
next
  case (Cons ns nsList)
  show ?case
  proof (cases "listGateways e ns")
    case (Inl err)
    with Cons.prems show ?thesis by simp
  next
    case (Inr items)
    with Cons.prems have "l \<in> set (printed (gatewaysLoop e ns items))
        \<or> l \<in> set (printed (snd (getNsGateways e nsList)))"
      by (auto simp: printed_append gatewaysLoop_guard split: prod.splits)
    then show ?thesis
    proof
      assume "l \<in> set (printed (gatewaysLoop e ns items))"
      with Inr show ?thesis by auto
    next
      assume "l \<in> set (printed (snd (getNsGateways e nsList)))"
      from Cons.IH [OF this] show ?thesis by auto
    qed
  qed
qed

lemma gatewaysLoop_lines:
  "l \<in> set (printed (gatewaysLoop e ns items)) \<Longrightarrow> lineNamespace l = Some ns"
  by (drule gatewaysLoop_printed) auto

lemma getNsGateways_lines:
  "l \<in> set (printed (snd (getNsGateways e nsList))) \<Longrightarrow> \<exists>n\<in>set nsList. lineNamespace l = Some n"
  by (drule getNsGateways_printed) (auto dest: gatewaysLoop_lines)

subsection \<open>Which namespaces the walker asks for\<close>

lemma scanned_append: "scanned (xs @ ys) = scanned xs @ scanned ys"
  by (induction xs rule: scanned.induct) simp_all

lemma scanned_none: "(\<forall>ns. ListGatewaysCall ns \<notin> set evs) \<Longrightarrow> scanned evs = []"
  by (induction evs rule: scanned.induct) auto

lemma getGatewaySecrets_scanned: "scanned (snd (getGatewaySecrets e gw)) = []"
  by (rule scanned_none) (auto dest: getGatewaySecrets_events)

lemma analyzeCertificate_scanned: "analyzeCertificate e secret = (res, evs) \<Longrightarrow> scanned evs = []"
  by (drule analyzeCertificate_events) auto

lemma secretsLoop_scanned: "scanned (secretsLoop e ns gw secrets) = []"
proof (induction secrets)
  case Nil
  then show ?case by simp
next
  case (Cons secret secrets)
  obtain x err evs where a: "analyzeCertificate e secret = ((x, err), evs)"
    by (metis surj_pair)
  from analyzeCertificate_scanned [OF a] Cons a show ?case
    by (cases err) (simp_all add: scanned_append)
qed

lemma gatewaysLoop_scanned: "scanned (gatewaysLoop e ns items) = []"
proof (induction items)
  case Nil
  then show ?case by simp
next
  case (Cons gw items)
  obtain secrets err gevs where g: "getGatewaySecrets e gw = ((secrets, err), gevs)"
    by (metis surj_pair)
  from getGatewaySecrets_scanned [of e gw] g have "scanned gevs = []" by simp
  with Cons g show ?case
    by (cases err) (simp_all add: scanned_append secretsLoop_scanned)
qed

lemma getNsGateways_scanned:
  "prefix (scanned (snd (getNsGateways e nsList))) nsList
   \<and> (fst (getNsGateways e nsList) = None \<longrightarrow> scanned (snd (getNsGateways e nsList)) = nsList)"
  by (induction nsList)
    (auto simp: scanned_append gatewaysLoop_scanned split: sum.splits prod.splits)

subsection \<open>Trimming\<close>

lemma spaceRunes_nonempty: "r \<in> set spaceRunes \<Longrightarrow> r \<noteq> []"
  by (auto simp: spaceRunes_def)

lemma leadingSpace_0_iff: "leadingSpace s = 0 \<longleftrightarrow> (\<forall>r\<in>set spaceRunes. \<not> prefix r s)"
proof (cases "filter (\<lambda>r. prefix r s) spaceRunes")
  case Nil
  then show ?thesis by (auto simp: leadingSpace_def filter_empty_conv)
next
  case (Cons r rs)
  then have "r \<in> set (filter (\<lambda>r. prefix r s) spaceRunes)" by simp
  then have "r \<in> set spaceRunes" "prefix r s" by simp_all
  with Cons spaceRunes_nonempty [of r] show ?thesis by (auto simp: leadingSpace_def)
qed

lemma trailingSpace_0_iff: "trailingSpace s = 0 \<longleftrightarrow> (\<forall>r\<in>set spaceRunes. \<not> suffix r s)"
proof (cases "filter (\<lambda>r. suffix r s) spaceRunes")
  case Nil
  then show ?thesis by (auto simp: trailingSpace_def filter_empty_conv)
next
  case (Cons r rs)
  then have "r \<in> set (filter (\<lambda>r. suffix r s) spaceRunes)" by simp
  then have "r \<in> set spaceRunes" "suffix r s" by simp_all
  with Cons spaceRunes_nonempty [of r] show ?thesis by (auto simp: trailingSpace_def)
qed

lemma leadingSpace_rune:
  "leadingSpace s \<noteq> 0 \<Longrightarrow> \<exists>r\<in>set spaceRunes. s = r @ drop (leadingSpace s) s"
proof (cases "filter (\<lambda>r. prefix r s) spaceRunes")
  case Nil
  moreover assume "leadingSpace s \<noteq> 0"
  ultimately show ?thesis by (simp add: leadingSpace_def)
next
  case (Cons r rs)
  then have "r \<in> set (filter (\<lambda>r. prefix r s) spaceRunes)" by simp
  then have "r \<in> set spaceRunes" "prefix r s" by simp_all
  moreover from Cons have "leadingSpace s = length r" by (simp add: leadingSpace_def)
  ultimately show ?thesis by (auto simp: prefix_def)
qed

lemma trailingSpace_rune:
  "trailingSpace s \<noteq> 0 \<Longrightarrow> \<exists>r\<in>set spaceRunes. s = take (length s - trailingSpace s) s @ r"
proof (cases "filter (\<lambda>r. suffix r s) spaceRunes")
  case Nil
  moreover assume "trailingSpace s \<noteq> 0"
  ultimately show ?thesis by (simp add: trailingSpace_def)
next
  case (Cons r rs)
  then have "r \<in> set (filter (\<lambda>r. suffix r s) spaceRunes)" by simp
  then have "r \<in> set spaceRunes" "suffix r s" by simp_all
  moreover from Cons have "trailingSpace s = length r" by (simp add: trailingSpace_def)
  ultimately show ?thesis by (auto simp: suffix_def)
qed

lemma trimLeftSpace_shape:
  "leadingSpace (trimLeftSpace s) = 0
   \<and> (\<exists>l. set l \<subseteq> set spaceRunes \<and> s = concat l @ trimLeftSpace s)"
proof (induction s rule: trimLeftSpace.induct)
  case (1 s)
  show ?case
  proof (cases "leadingSpace s = 0")
    case True
    then have "s = concat [] @ trimLeftSpace s" by (simp add: trimLeftSpace.simps)
    with True show ?thesis by (metis empty_set empty_subsetI trimLeftSpace.simps)
  next
    case False
    from leadingSpace_rune [OF False] obtain r where r: "r \<in> set spaceRunes"
      and s: "s = r @ drop (leadingSpace s) s" by blast
    from 1 [OF False] obtain l where z: "leadingSpace (trimLeftSpace (drop (leadingSpace s) s)) = 0"
      and l: "set l \<subseteq> set spaceRunes"
      and d: "drop (leadingSpace s) s = concat l @ trimLeftSpace (drop (leadingSpace s) s)"
      by blast
    have t: "trimLeftSpace s = trimLeftSpace (drop (leadingSpace s) s)"
      using False by (subst trimLeftSpace.simps) simp
    from s d have "s = concat (r # l) @ trimLeftSpace (drop (leadingSpace s) s)"
      by (metis append.assoc concat.simps(2))
    moreover from r l have "set (r # l) \<subseteq> set spaceRunes" by simp
    ultimately show ?thesis using z t by metis
  qed
qed

lemma trimRightSpace_shape:
  "trailingSpace (trimRightSpace s) = 0
   \<and> (\<exists>l. set l \<subseteq> set spaceRunes \<and> s = trimRightSpace s @ concat l)"
proof (induction s rule: trimRightSpace.induct)
  case (1 s)
  show ?case
  proof (cases "trailingSpace s = 0")
    case True
    then have "s = trimRightSpace s @ concat []" by (simp add: trimRightSpace.simps)
    with True show ?thesis by (metis empty_set empty_subsetI trimRightSpace.simps)
  next
    case False
    let ?s' = "take (length s - trailingSpace s) s"
    from trailingSpace_rune [OF False] obtain r where r: "r \<in> set spaceRunes"
      and s: "s = ?s' @ r" by blast
    from 1 [OF False] obtain l where z: "trailingSpace (trimRightSpace ?s') = 0"
      and l: "set l \<subseteq> set spaceRunes"
      and d: "?s' = trimRightSpace ?s' @ concat l"
      by blast
    have t: "trimRightSpace s = trimRightSpace ?s'"
      using False by (subst trimRightSpace.simps) simp
    from s d have "s = trimRightSpace ?s' @ concat (l @ [r])"
      by (metis append.assoc concat_append concat.simps append_Nil2)
    moreover from r l have "set (l @ [r]) \<subseteq> set spaceRunes" by simp
    ultimately show ?thesis using z t by metis
  qed
qed

lemma trimRightSpace_prefix: "prefix (trimRightSpace s) s"
  using trimRightSpace_shape [of s] by (metis prefixI)

text \<open>What trimming leaves: no white space at either end, and only white space was removed.\<close>

lemma TrimSpace_shape:
  "leadingSpace (TrimSpace s) = 0 \<and> trailingSpace (TrimSpace s) = 0
   \<and> (\<exists>l r. set l \<subseteq> set spaceRunes \<and> set r \<subseteq> set spaceRunes
          \<and> s = concat l @ TrimSpace s @ concat r)"
proof -
  let ?t = "trimLeftSpace s"
  from trimLeftSpace_shape [of s] obtain l where lz: "leadingSpace ?t = 0"
    and l: "set l \<subseteq> set spaceRunes" "s = concat l @ ?t" by blast
  from trimRightSpace_shape [of ?t] obtain r where rz: "trailingSpace (TrimSpace s) = 0"
    and r: "set r \<subseteq> set spaceRunes" "?t = TrimSpace s @ concat r"
    unfolding TrimSpace_def by blast
  have "leadingSpace (TrimSpace s) = 0"
    unfolding leadingSpace_0_iff TrimSpace_def
  proof
    fix u assume u: "u \<in> set spaceRunes"
    show "\<not> prefix u (trimRightSpace ?t)"
    proof
      assume "prefix u (trimRightSpace ?t)"
      with trimRightSpace_prefix [of ?t] have "prefix u ?t" by (metis prefix_order.trans)
      with lz u show False by (simp add: leadingSpace_0_iff)
    qed
  qed
  moreover from l r have "s = concat l @ TrimSpace s @ concat r" by simp
  ultimately show ?thesis using rz l(1) r(1) by blast
qed

lemma TrimPrefix_shape:
  "(prefix pre s \<longrightarrow> s = pre @ TrimPrefix s pre) \<and> (\<not> prefix pre s \<longrightarrow> TrimPrefix s pre = s)"
  by (auto simp: TrimPrefix_def prefix_def)

subsection \<open>The base64 decoder on bytes outside its alphabet\<close>

lemma skipNewlines_keeps:
  "c \<in> set cs \<Longrightarrow> c \<noteq> NL \<Longrightarrow> c \<noteq> CR \<Longrightarrow> c \<in> set (fst (skipNewlines cs si))"
  by (induction cs arbitrary: si) auto

lemma finishPadding_garbage:
  "c \<in> set cs \<Longrightarrow> c \<noteq> NL \<Longrightarrow> c \<noteq> CR \<Longrightarrow> snd (finishPadding dbuf cs si) \<noteq> None"
  using skipNewlines_keeps [of c cs si]
  by (auto simp: finishPadding_def split: prod.splits)

lemma padding_garbage:
  assumes "c \<in> set cs" "c \<noteq> NL" "c \<noteq> CR" "c \<noteq> CHR ''=''"
  shows "snd (padding dbuf cs si) \<noteq> None"
proof -
  obtain rest si' where sk: "skipNewlines cs si = (rest, si')" by (cases "skipNewlines cs si")
  with skipNewlines_keeps [OF assms(1-3), of si] have c: "c \<in> set rest" by simp
  show ?thesis
  proof (cases rest)
    case Nil
    with c show ?thesis by simp
  next
    case (Cons d rest')
    show ?thesis
    proof (cases "d = CHR ''=''")
      case True
      with c Cons assms(4) have "c \<in> set rest'" by auto
      from finishPadding_garbage [OF this assms(2,3)] finishPadding_garbage [OF assms(1-3)]
      show ?thesis using sk Cons True by (simp add: padding_def)
    next
      case False
      with finishPadding_garbage [OF assms(1-3)] show ?thesis
        using sk Cons by (simp add: padding_def)
    qed
  qed
qed

lemma decodeLoop_garbage:
  assumes "c \<in> set s" "decodeMap c = None" "c \<noteq> NL" "c \<noteq> CR" "c \<noteq> CHR ''=''"
  shows "snd (decodeLoop dbuf si s) \<noteq> None"
  using assms(1)
proof (induction s arbitrary: dbuf si)
  case Nil
  then show ?case by simp
next
  case (Cons d s)
  show ?case
  proof (cases "d = c")
    case True
    with assms show ?thesis by simp
  next
    case False
    with Cons.prems have "c \<in> set s" by simp
    note ih = Cons.IH [OF this]
    note pad = padding_garbage [OF \<open>c \<in> set s\<close> assms(3-5)]
    show ?thesis
      using ih pad by (cases "decodeMap d") (auto simp: case_prod_beta)
  qed
qed

subsection \<open>The example cluster, evaluated\<close>

lemma edge_names: "GetName edge = ''edge''" "GetNamespace edge = ''shop''"
  by (simp_all add: GetName_def GetNamespace_def getNestedString_def NestedString_def
      NestedFieldNoCopy_def gateway_def edge_def)

lemma broken_names: "GetName (broken name) = name" "GetNamespace (broken name) = ''shop''"
  by (simp_all add: GetName_def GetNamespace_def getNestedString_def NestedString_def
      NestedFieldNoCopy_def broken_def)

lemma shopCert_residual:
  "ReplaceAll
     (ReplaceAll
        (''-----BEGIN CERTIFICATE-----'' @ [NL] @ ''QUJD'' @ [NL] @ ''RUZH'' @ [NL]
           @ ''-----END CERTIFICATE-----'' @ [NL])
        (''-----BEGIN CERTIFICATE-----'' @ [NL]) [])
     (NL # ''-----END CERTIFICATE-----'') []
   = ''QUJD'' @ [NL] @ ''RUZH'' @ [NL]"
  by (simp add: NL_def)

lemma wrapped_decodes: "DecodeString (''QUJD'' @ [NL] @ ''RUZH'' @ [NL]) = (''ABCEFG'', None)"
  by (simp add: DecodeString_def decodeMap_def quantumBytes_def NL_def CR_def char_of_def
      bit_Suc_0_iff)

lemma expiry_trimmed:
  "TrimSpace (TrimPrefix (''notAfter=Jan  1 00:00:00 2030 GMT'' @ [NL]) ''notAfter='')
     = ''Jan  1 00:00:00 2030 GMT''"
  by (simp add: TrimSpace_def TrimPrefix_def trimLeftSpace.simps trimRightSpace.simps
      leadingSpace_def trailingSpace_def spaceRunes_def NL_def suffix_def)

lemma shopCert_name: "Name shopCert = ''shop-cert''"
  by (simp add: shopCert_def)

lemma analyzeCertificate_shopCert:
  "analyzeCertificate shop shopCert =
     ((''Jan  1 00:00:00 2030 GMT'', None), [OpensslCall ''ABCEFG''])"
  by (simp add: analyzeCertificate_def shopCert_def shopCert_residual [simplified]
      wrapped_decodes [simplified] shop_def expiry_trimmed [simplified])

lemma analyzeCertificate_noCert:
  "analyzeCertificate shop noCert = (([], Some ''tls.crt not found in secret''), [])"
  by (simp add: analyzeCertificate_def noCert_def)

lemma getGatewaySecrets_edge:
  "getGatewaySecrets shop edge = (([shopCert], None), [GetSecretCall ''shop'' ''shop-cert''])"
  by (simp add: getGatewaySecrets_def NestedSlice_spec_servers serversLoop_step edge_names
      edge_names [unfolded edge_def gateway_def tlsServer_def] edge_def gateway_def tlsServer_def
      shop_def del: serversLoop.simps(2))

lemma getGatewaySecrets_broken:
  "getGatewaySecrets shop (broken name) = (([], Some ''error getting gateway servers: <nil>''), [])"
  by (simp add: getGatewaySecrets_def NestedSlice_spec_servers broken_def)

lemma listGateways_shop:
  "listGateways shop ''shop'' = Inr [edge]" "listGateways shop ''web'' = Inl ''forbidden''"
  by (simp_all add: shop_def)

lemma getNsGateways_shop:
  "getNsGateways shop [''shop''] =
     (None, [ListGatewaysCall ''shop'', GetSecretCall ''shop'' ''shop-cert'', OpensslCall ''ABCEFG'',
             Print (Certificate ''shop-cert'' ''edge'' ''shop'' ''Jan  1 00:00:00 2030 GMT'')])"
  by (simp add: listGateways_shop getGatewaySecrets_edge analyzeCertificate_shopCert
      edge_names shopCert_name)

lemma k8sClient_shop: "k8sClient shop = None"
  by (simp add: k8sClient_def shop_def)

lemma listNamespaces_shop:
  "listNamespaces shop = Inr [''kube-system'', ''shop'', ''xcp-multicluster'', ''web'']"
  by (simp add: shop_def)

lemma main_shop:
  "main shop =
     [ListNamespacesCall,
      ListGatewaysCall ''shop'', GetSecretCall ''shop'' ''shop-cert'', OpensslCall ''ABCEFG'',
      Print (Certificate ''shop-cert'' ''edge'' ''shop'' ''Jan  1 00:00:00 2030 GMT''),
      ListGatewaysCall ''web'', Print (ResourcesError ''forbidden'')]"
  by (simp add: main_def k8sClient_shop getNamespaces_def listNamespaces_shop listGateways_shop
      getGatewaySecrets_edge analyzeCertificate_shopCert edge_names shopCert_name)

subsection \<open>The namespace filter\<close>

lemma nsLoop_filter:
  "nsLoop items acc =
     acc @ filter (\<lambda>ns. ns \<noteq> ''kube-system'' \<and> ns \<noteq> ''xcp-multicluster'') items"
  by (induction items arbitrary: acc) simp_all

text \<open>
  C8. When the namespace listing succeeds, the namespaces handed to the scan are the
  listed ones without \<^verbatim>\<open>kube-system\<close> and \<^verbatim>\<open>xcp-multicluster\<close>, in listing order; as a
  set, the listed names minus these two. Nothing of the environment but the listing
  enters the result. The scan then asks for the gateways of these namespaces, in this
  order, and of no other: of all of them when no gateway listing fails, of those up to
  the failing one otherwise.
\<close>

theorem getNamespaces_excludes_reserved:
  "listNamespaces e = Inr items \<Longrightarrow>
     (\<exists>nsNames. getNamespaces e = ((nsNames, None), [ListNamespacesCall])
        \<and> nsNames = filter (\<lambda>ns. ns \<noteq> ''kube-system'' \<and> ns \<noteq> ''xcp-multicluster'') items
        \<and> set nsNames = set items - {''kube-system'', ''xcp-multicluster''}
        \<and> (k8sClient e = None \<longrightarrow>
              prefix (scanned (main e)) nsNames
              \<and> (fst (getNsGateways e nsNames) = None \<longrightarrow> scanned (main e) = nsNames)))"
proof -
  assume l: "listNamespaces e = Inr items"
  let ?ns = "filter (\<lambda>ns. ns \<noteq> ''kube-system'' \<and> ns \<noteq> ''xcp-multicluster'') items"
  from l have g: "getNamespaces e = ((?ns, None), [ListNamespacesCall])"
    by (simp add: getNamespaces_def nsLoop_filter)
  have "k8sClient e = None \<Longrightarrow> scanned (main e) = scanned (snd (getNsGateways e ?ns))"
    by (cases "getNsGateways e ?ns"; cases "fst (getNsGateways e ?ns)")
      (simp_all add: main_def g scanned_append)
  with getNsGateways_scanned [of e ?ns] g show ?thesis by auto
qed

theorem getNamespaces_excludes_reserved_witness:
  "listNamespaces shop = Inr [''kube-system'', ''shop'', ''xcp-multicluster'', ''web'']
   \<and> getNamespaces shop = (([''shop'', ''web''], None), [ListNamespacesCall])
   \<and> k8sClient shop = None
   \<and> prefix (scanned (main shop)) [''shop'', ''web'']
   \<and> scanned (main shop) = [''shop'', ''web'']"
  using getNamespaces_excludes_reserved [OF listNamespaces_shop] listNamespaces_shop
    k8sClient_shop
  by (auto simp: main_shop)

subsection \<open>Secret extraction\<close>

text \<open>
  C4. A server entry that is a record is passed over when it has no \<^verbatim>\<open>tls\<close> block (or
  none that is a record), when its \<^verbatim>\<open>tls.mode\<close> is absent, not a string or
  \<^verbatim>\<open>PASSTHROUGH\<close>, or when its \<^verbatim>\<open>tls.credentialName\<close> is absent or not a string: the
  loop does for the whole list what it does for the remaining servers, result and
  trace alike, so no secret is fetched for this server and no error comes from it.
  The remaining servers are processed: when none of them fails, the result is the
  secrets so far followed by those fetched for the terminated servers among them, in
  order; and when the next server is terminated, its secret is fetched first, and
  a failure of that fetch is the result.
\<close>

theorem skipped_server_fetches_nothing:
  assumes "(\<forall>tls. map_of server ''tls'' \<noteq> Some (JMap tls))
     \<or> (\<exists>tls. map_of server ''tls'' = Some (JMap tls)
           \<and> ((\<forall>mode. map_of tls ''mode'' \<noteq> Some (JStr mode))
                \<or> map_of tls ''mode'' = Some (JStr ''PASSTHROUGH'')
                \<or> (\<forall>c. map_of tls ''credentialName'' \<noteq> Some (JStr c))))"
  shows "serversLoop e gw (JMap server # servers) secrets = serversLoop e gw servers secrets
     \<and> serversLoop e gw [JMap server] secrets = ((secrets, None), [])
     \<and> ((\<forall>s\<in>set servers. \<not> serverFails e (GetNamespace gw) s) \<longrightarrow>
          (\<exists>fetched.
             serversLoop e gw (JMap server # servers) secrets =
               ((secrets @ fetched, None),
                map (GetSecretCall (GetNamespace gw)) (List.map_filter terminated servers))
             \<and> list_all2 (\<lambda>c sec. getSecret e (GetNamespace gw) c = Inr sec)
                  (List.map_filter terminated servers) fetched))
     \<and> (\<forall>next rest c.
           servers = next # rest \<and> terminated next = Some c \<longrightarrow>
             (\<forall>err. getSecret e (GetNamespace gw) c = Inl err \<longrightarrow>
                serversLoop e gw (JMap server # servers) secrets =
                  (([], Some (''error getting secret '' @ c @ '' in namespace ''
                               @ GetNamespace gw @ '': '' @ err)),
                   [GetSecretCall (GetNamespace gw) c]))
             \<and> (\<forall>sec. getSecret e (GetNamespace gw) c = Inr sec \<longrightarrow>
                serversLoop e gw (JMap server # servers) secrets =
                  (fst (serversLoop e gw rest (secrets @ [sec])),
                   GetSecretCall (GetNamespace gw) c
                     # snd (serversLoop e gw rest (secrets @ [sec])))))"
proof -
  from assms have "terminated (JMap server) = None"
    by (auto split: option.splits jv.splits)
  then have skip: "serversLoop e gw (JMap server # servers) secrets = serversLoop e gw servers secrets"
    and alone: "serversLoop e gw [JMap server] secrets = ((secrets, None), [])"
    by (simp_all add: serversLoop_step del: serversLoop.simps(2) terminated.simps)
  have rest_ok: "(\<forall>s\<in>set servers. \<not> serverFails e (GetNamespace gw) s) \<longrightarrow>
          (\<exists>fetched.
             serversLoop e gw (JMap server # servers) secrets =
               ((secrets @ fetched, None),
                map (GetSecretCall (GetNamespace gw)) (List.map_filter terminated servers))
             \<and> list_all2 (\<lambda>c sec. getSecret e (GetNamespace gw) c = Inr sec)
                  (List.map_filter terminated servers) fetched)"
    unfolding skip using serversLoop_ok [of servers e gw secrets] by blast
  have nxt: "\<forall>next rest c.
           servers = next # rest \<and> terminated next = Some c \<longrightarrow>
             (\<forall>err. getSecret e (GetNamespace gw) c = Inl err \<longrightarrow>
                serversLoop e gw (JMap server # servers) secrets =
                  (([], Some (''error getting secret '' @ c @ '' in namespace ''
                               @ GetNamespace gw @ '': '' @ err)),
                   [GetSecretCall (GetNamespace gw) c]))
             \<and> (\<forall>sec. getSecret e (GetNamespace gw) c = Inr sec \<longrightarrow>
                serversLoop e gw (JMap server # servers) secrets =
                  (fst (serversLoop e gw rest (secrets @ [sec])),
                   GetSecretCall (GetNamespace gw) c
                     # snd (serversLoop e gw rest (secrets @ [sec]))))"
  proof (intro allI impI, elim conjE)
    fix "next" rest c
    assume sv: "servers = next # rest" and t: "terminated next = Some c"
    from t obtain m where m: "next = JMap m" by (cases "next") simp_all
    from t m show "(\<forall>err. getSecret e (GetNamespace gw) c = Inl err \<longrightarrow>
                serversLoop e gw (JMap server # servers) secrets =
                  (([], Some (''error getting secret '' @ c @ '' in namespace ''
                               @ GetNamespace gw @ '': '' @ err)),
                   [GetSecretCall (GetNamespace gw) c]))
             \<and> (\<forall>sec. getSecret e (GetNamespace gw) c = Inr sec \<longrightarrow>
                serversLoop e gw (JMap server # servers) secrets =
                  (fst (serversLoop e gw rest (secrets @ [sec])),
                   GetSecretCall (GetNamespace gw) c
                     # snd (serversLoop e gw rest (secrets @ [sec]))))"
      using skip unfolding sv
      by (simp add: serversLoop_step [of e gw m] del: serversLoop.simps(2) terminated.simps)
  qed
  from skip alone rest_ok nxt show ?thesis by blast
qed

theorem skipped_server_fetches_nothing_witness:
  "map_of [(''tls'', JMap [(''mode'', JStr ''PASSTHROUGH''), (''credentialName'', JStr ''other'')])]
       ''tls''
     = Some (JMap [(''mode'', JStr ''PASSTHROUGH''), (''credentialName'', JStr ''other'')])
   \<and> serversLoop shop edge
        [JMap [(''tls'', JMap [(''mode'', JStr ''PASSTHROUGH''),
                                (''credentialName'', JStr ''other'')])],
         tlsServer ''SIMPLE'' ''shop-cert''] []
       = (([shopCert], None), [GetSecretCall ''shop'' ''shop-cert''])"
proof -
  let ?server = "[(''tls'', JMap [(''mode'', JStr ''PASSTHROUGH''), (''credentialName'', JStr ''other'')])]"
  have h: "map_of ?server ''tls''
     = Some (JMap [(''mode'', JStr ''PASSTHROUGH''), (''credentialName'', JStr ''other'')])"
    by simp
  have t: "terminated (tlsServer ''SIMPLE'' ''shop-cert'') = Some ''shop-cert''"
    by (simp add: tlsServer_def)
  have f: "getSecret shop (GetNamespace edge) ''shop-cert'' = Inr shopCert"
    by (simp add: edge_names shop_def)
  from skipped_server_fetches_nothing
    [of ?server shop edge "[tlsServer ''SIMPLE'' ''shop-cert'']" "[]"] t f
  have "serversLoop shop edge (JMap ?server # [tlsServer ''SIMPLE'' ''shop-cert'']) [] =
      (fst (serversLoop shop edge [] ([] @ [shopCert])),
       GetSecretCall (GetNamespace edge) ''shop-cert''
         # snd (serversLoop shop edge [] ([] @ [shopCert])))"
    by force
  with h show ?thesis by (simp add: edge_names del: serversLoop.simps(2))
qed

text \<open>
  C6. The extraction of a gateway fails exactly when \<^verbatim>\<open>spec.servers\<close> is not there as a
  list, or some entry of the list is not a record, or the secret of some terminated
  server cannot be fetched from the gateway's own namespace. A failed extraction
  returns no secrets. It stops at the first failing entry: whatever follows that entry
  in the list, the result is the error of that entry, after the fetches for the
  entries before it and nothing else; for a failed fetch, the error names the
  credential and the namespace.
\<close>

theorem getGatewaySecrets_fails_iff:
  "(snd (fst (getGatewaySecrets e gw)) \<noteq> None \<longleftrightarrow>
      (\<forall>spec servers. map_of gw ''spec'' = Some (JMap spec)
          \<longrightarrow> map_of spec ''servers'' \<noteq> Some (JList servers))
      \<or> (\<exists>spec servers. map_of gw ''spec'' = Some (JMap spec)
            \<and> map_of spec ''servers'' = Some (JList servers)
            \<and> (\<exists>s\<in>set servers. (\<forall>m. s \<noteq> JMap m)
                  \<or> (\<exists>c err. terminated s = Some c
                        \<and> getSecret e (GetNamespace gw) c = Inl err))))
   \<and> (snd (fst (getGatewaySecrets e gw)) \<noteq> None \<longrightarrow> fst (fst (getGatewaySecrets e gw)) = [])
   \<and> (\<forall>spec pre s post.
         map_of gw ''spec'' = Some (JMap spec)
         \<and> map_of spec ''servers'' = Some (JList (pre @ s # post))
         \<and> (\<forall>x\<in>set pre. \<not> serverFails e (GetNamespace gw) x)
         \<longrightarrow> ((\<forall>m. s \<noteq> JMap m) \<longrightarrow>
                getGatewaySecrets e gw =
                  (([], Some ''invalid server object found''),
                   map (GetSecretCall (GetNamespace gw)) (List.map_filter terminated pre)))
           \<and> (\<forall>c err. terminated s = Some c \<and> getSecret e (GetNamespace gw) c = Inl err \<longrightarrow>
                getGatewaySecrets e gw =
                  (([], Some (''error getting secret '' @ c @ '' in namespace ''
                               @ GetNamespace gw @ '': '' @ err)),
                   map (GetSecretCall (GetNamespace gw)) (List.map_filter terminated pre)
                     @ [GetSecretCall (GetNamespace gw) c])))"
  (is "?iff \<and> ?nil \<and> ?first")
proof (intro conjI)
  show ?iff
  proof (cases "\<exists>spec servers. map_of gw ''spec'' = Some (JMap spec)
            \<and> map_of spec ''servers'' = Some (JList servers)")
    case False
    with getGatewaySecrets_unlisted [of gw e] show ?thesis by auto
  next
    case True
    then obtain spec servers where sp: "map_of gw ''spec'' = Some (JMap spec)"
      and sv: "map_of spec ''servers'' = Some (JList servers)" by blast
    from getGatewaySecrets_listed [OF sp sv, of e]
      serversLoop_err_iff [of e gw servers "[]"]
    have "snd (fst (getGatewaySecrets e gw)) \<noteq> None
      \<longleftrightarrow> (\<exists>s\<in>set servers. serverFails e (GetNamespace gw) s)" by simp
    with sp sv show ?thesis by (auto simp: serverFails_iff)
  qed
next
  show ?nil
  proof (cases "\<exists>spec servers. map_of gw ''spec'' = Some (JMap spec)
            \<and> map_of spec ''servers'' = Some (JList servers)")
    case False
    with getGatewaySecrets_unlisted [of gw e] show ?thesis by auto
  next
    case True
    then obtain spec servers where sp: "map_of gw ''spec'' = Some (JMap spec)"
      and sv: "map_of spec ''servers'' = Some (JList servers)" by blast
    show ?thesis
    proof
      assume "snd (fst (getGatewaySecrets e gw)) \<noteq> None"
      with getGatewaySecrets_listed [OF sp sv, of e]
      have "snd (fst (serversLoop e gw servers [])) \<noteq> None" by simp
      with serversLoop_err_iff [of e gw servers "[]"]
      obtain pre s post where "servers = pre @ s # post"
        and s: "serverFails e (GetNamespace gw) s"
        and pre: "\<forall>x\<in>set pre. \<not> serverFails e (GetNamespace gw) x"
        using split_list_first_prop [of servers "serverFails e (GetNamespace gw)"] by blast
      moreover from serversLoop_prefix_ok [OF pre, of "s # post" "[]"] obtain fetched where
        "serversLoop e gw (pre @ s # post) [] =
           (fst (serversLoop e gw (s # post) ([] @ fetched)),
            map (GetSecretCall (GetNamespace gw)) (List.map_filter terminated pre)
              @ snd (serversLoop e gw (s # post) ([] @ fetched)))" by blast
      moreover from serversLoop_failing_head [OF s, of post "[] @ fetched"]
      have "fst (fst (serversLoop e gw (s # post) ([] @ fetched))) = []"
        by (simp del: serversLoop.simps)
      ultimately have "fst (fst (serversLoop e gw servers [])) = []"
        by (simp del: serversLoop.simps)
      with getGatewaySecrets_listed [OF sp sv, of e] show "fst (fst (getGatewaySecrets e gw)) = []"
        by simp
    qed
  qed
next
  show ?first
  proof (intro allI impI, elim conjE)
    fix spec pre s post
    assume sp: "map_of gw ''spec'' = Some (JMap spec)"
      and sv: "map_of spec ''servers'' = Some (JList (pre @ s # post))"
      and pre: "\<forall>x\<in>set pre. \<not> serverFails e (GetNamespace gw) x"
    from serversLoop_prefix_ok [OF pre, of "s # post" "[]"] obtain fetched where
      run: "getGatewaySecrets e gw =
         (fst (serversLoop e gw (s # post) fetched),
          map (GetSecretCall (GetNamespace gw)) (List.map_filter terminated pre)
            @ snd (serversLoop e gw (s # post) fetched))"
      using getGatewaySecrets_listed [OF sp sv, of e] by auto
    show "((\<forall>m. s \<noteq> JMap m) \<longrightarrow>
                getGatewaySecrets e gw =
                  (([], Some ''invalid server object found''),
                   map (GetSecretCall (GetNamespace gw)) (List.map_filter terminated pre)))
           \<and> (\<forall>c err. terminated s = Some c \<and> getSecret e (GetNamespace gw) c = Inl err \<longrightarrow>
                getGatewaySecrets e gw =
                  (([], Some (''error getting secret '' @ c @ '' in namespace ''
                               @ GetNamespace gw @ '': '' @ err)),
                   map (GetSecretCall (GetNamespace gw)) (List.map_filter terminated pre)
                     @ [GetSecretCall (GetNamespace gw) c]))"
    proof (intro conjI allI impI)
      assume "\<forall>m. s \<noteq> JMap m"
      then show "getGatewaySecrets e gw =
                  (([], Some ''invalid server object found''),
                   map (GetSecretCall (GetNamespace gw)) (List.map_filter terminated pre))"
        using run by (simp add: serversLoop_invalid del: serversLoop.simps)
    next
      fix c err
      assume "terminated s = Some c \<and> getSecret e (GetNamespace gw) c = Inl err"
      moreover from this obtain m where "s = JMap m" by (cases s) simp_all
      ultimately show "getGatewaySecrets e gw =
                  (([], Some (''error getting secret '' @ c @ '' in namespace ''
                               @ GetNamespace gw @ '': '' @ err)),
                   map (GetSecretCall (GetNamespace gw)) (List.map_filter terminated pre)
                     @ [GetSecretCall (GetNamespace gw) c])"
        using run by (simp add: serversLoop_step del: serversLoop.simps terminated.simps)
    qed
  qed
qed

theorem getGatewaySecrets_fails_iff_witness:
  "getGatewaySecrets shop
       (gateway ''shop'' ''bad''
          [tlsServer ''SIMPLE'' ''shop-cert'', tlsServer ''SIMPLE'' ''missing'', JNull])
     = (([], Some ''error getting secret missing in namespace shop: not found''),
        [GetSecretCall ''shop'' ''shop-cert'', GetSecretCall ''shop'' ''missing''])"
proof -
  let ?gw = "gateway ''shop'' ''bad''
          [tlsServer ''SIMPLE'' ''shop-cert'', tlsServer ''SIMPLE'' ''missing'', JNull]"
  have ns: "GetNamespace ?gw = ''shop''"
    by (simp add: GetNamespace_def getNestedString_def NestedString_def NestedFieldNoCopy_def
        gateway_def)
  have sp: "map_of ?gw ''spec'' = Some (JMap [(''servers'',
      JList ([tlsServer ''SIMPLE'' ''shop-cert''] @ tlsServer ''SIMPLE'' ''missing'' # [JNull]))])"
    by (simp add: gateway_def)
  have sv: "map_of [(''servers'',
      JList ([tlsServer ''SIMPLE'' ''shop-cert''] @ tlsServer ''SIMPLE'' ''missing'' # [JNull]))]
      ''servers''
    = Some (JList ([tlsServer ''SIMPLE'' ''shop-cert''] @ tlsServer ''SIMPLE'' ''missing'' # [JNull]))"
    by simp
  have pre: "\<forall>x\<in>set [tlsServer ''SIMPLE'' ''shop-cert'']. \<not> serverFails shop (GetNamespace ?gw) x"
    unfolding ns by (simp add: serverFails_def tlsServer_def shop_def)
  have t: "terminated (tlsServer ''SIMPLE'' ''missing'') = Some ''missing''
      \<and> getSecret shop (GetNamespace ?gw) ''missing'' = Inl ''not found''"
    unfolding ns by (simp add: tlsServer_def shop_def)
  from getGatewaySecrets_fails_iff [of shop ?gw] sp sv pre t
  have "getGatewaySecrets shop ?gw =
      (([], Some (''error getting secret '' @ ''missing'' @ '' in namespace ''
                   @ GetNamespace ?gw @ '': '' @ ''not found'')),
       map (GetSecretCall (GetNamespace ?gw))
           (List.map_filter terminated [tlsServer ''SIMPLE'' ''shop-cert''])
         @ [GetSecretCall (GetNamespace ?gw) ''missing''])"
    by blast
  then show ?thesis unfolding ns by (simp add: tlsServer_def)
qed

text \<open>
  C9. When the extraction of a gateway succeeds, \<^verbatim>\<open>spec.servers\<close> is a list, and the
  secrets returned are, one for one and in the order of the server list, the secrets
  fetched for the credential names of its terminated servers; the fetches are made in
  that order, from the gateway's own namespace. Nothing is removed from either list,
  so a credential named by two servers is fetched twice and returned twice.
\<close>

theorem getGatewaySecrets_keeps_order:
  assumes "getGatewaySecrets e gw = ((secrets, None), evs)"
  shows "\<exists>spec servers. map_of gw ''spec'' = Some (JMap spec)
     \<and> map_of spec ''servers'' = Some (JList servers)
     \<and> list_all2 (\<lambda>c sec. getSecret e (GetNamespace gw) c = Inr sec)
         (List.map_filter terminated servers) secrets
     \<and> evs = map (GetSecretCall (GetNamespace gw)) (List.map_filter terminated servers)"
  using assms by (rule getGatewaySecrets_ok_shape)

theorem getGatewaySecrets_keeps_order_witness:
  "getGatewaySecrets shop
       (gateway ''shop'' ''twice''
          [tlsServer ''SIMPLE'' ''shop-cert'', tlsServer ''PASSTHROUGH'' ''other'',
           tlsServer ''MUTUAL'' ''shop-cert''])
     = (([shopCert, shopCert], None),
        [GetSecretCall ''shop'' ''shop-cert'', GetSecretCall ''shop'' ''shop-cert''])
   \<and> list_all2 (\<lambda>c sec. getSecret shop ''shop'' c = Inr sec)
         [''shop-cert'', ''shop-cert''] [shopCert, shopCert]"
proof -
  let ?gw = "gateway ''shop'' ''twice''
          [tlsServer ''SIMPLE'' ''shop-cert'', tlsServer ''PASSTHROUGH'' ''other'',
           tlsServer ''MUTUAL'' ''shop-cert'']"
  have ns: "GetNamespace ?gw = ''shop''"
    by (simp add: GetNamespace_def getNestedString_def NestedString_def NestedFieldNoCopy_def
        gateway_def)
  have run: "getGatewaySecrets shop ?gw
     = (([shopCert, shopCert], None),
        [GetSecretCall ''shop'' ''shop-cert'', GetSecretCall ''shop'' ''shop-cert''])"
    by (simp add: getGatewaySecrets_def NestedSlice_spec_servers gateway_def tlsServer_def
        serversLoop_step ns [unfolded gateway_def tlsServer_def] shop_def
        del: serversLoop.simps(2))
  from getGatewaySecrets_keeps_order [OF run] run show ?thesis
    by (simp add: ns ns [unfolded gateway_def tlsServer_def] gateway_def tlsServer_def)
qed

subsection \<open>Certificate analysis\<close>

text \<open>
  C3. When the secrets of a gateway were extracted and the analysis of one of them
  fails, the walker prints one diagnostic with the gateway's name, the namespace and
  the cause, prints no record for this secret, and goes on with the secrets after it
  and then with the next gateways; the secrets before it are handled as they would be
  without it. A secret without the key \<^verbatim>\<open>tls.crt\<close> fails in this way, with a message
  that names the key.
\<close>

theorem analysis_failure_is_local:
  "(getGatewaySecrets e gw = ((pre @ secret # post, None), gevs)
      \<and> analyzeCertificate e secret = ((expiryDate, Some err), evs)
    \<longrightarrow> gatewaysLoop e ns (gw # items) =
          gevs @ secretsLoop e ns gw pre
            @ evs @ Print (AnalyzeError (GetName gw) ns err) # secretsLoop e ns gw post
            @ gatewaysLoop e ns items
        \<and> printed evs = []
        \<and> render (AnalyzeError (GetName gw) ns err) =
            ''error analyzing certificate for gateway '' @ GetName gw @ '' in namespace '' @ ns
              @ '': '' @ err @ [NL])
   \<and> (Data secret ''tls.crt'' = None
        \<longrightarrow> analyzeCertificate e secret = (([], Some ''tls.crt not found in secret''), []))"
  by (auto simp: secretsLoop_append analyzeCertificate_printed analyzeCertificate_def)

theorem analysis_failure_is_local_witness:
  "gatewaysLoop shop ''shop''
       [gateway ''shop'' ''mixed'' [tlsServer ''SIMPLE'' ''no-cert'', tlsServer ''SIMPLE'' ''shop-cert'']]
     = [GetSecretCall ''shop'' ''no-cert'', GetSecretCall ''shop'' ''shop-cert'',
        Print (AnalyzeError ''mixed'' ''shop'' ''tls.crt not found in secret''),
        OpensslCall ''ABCEFG'',
        Print (Certificate ''shop-cert'' ''mixed'' ''shop'' ''Jan  1 00:00:00 2030 GMT'')]"
proof -
  let ?gw = "gateway ''shop'' ''mixed''
      [tlsServer ''SIMPLE'' ''no-cert'', tlsServer ''SIMPLE'' ''shop-cert'']"
  have names: "GetNamespace ?gw = ''shop''" "GetName ?gw = ''mixed''"
    by (simp_all add: GetName_def GetNamespace_def getNestedString_def NestedString_def
        NestedFieldNoCopy_def gateway_def)
  have ex: "getGatewaySecrets shop ?gw =
      (([] @ noCert # [shopCert], None),
       [GetSecretCall ''shop'' ''no-cert'', GetSecretCall ''shop'' ''shop-cert''])"
    by (simp add: getGatewaySecrets_def NestedSlice_spec_servers serversLoop_step
        names [unfolded gateway_def tlsServer_def] gateway_def tlsServer_def shop_def
        del: serversLoop.simps(2))
  have "Data noCert ''tls.crt'' = None" by (simp add: noCert_def)
  with analysis_failure_is_local [of shop ?gw "[]" noCert "[shopCert]"
      "[GetSecretCall ''shop'' ''no-cert'', GetSecretCall ''shop'' ''shop-cert'']"
      "[]" "''tls.crt not found in secret''" "[]" "''shop''" "[]"] ex
  have "gatewaysLoop shop ''shop'' [?gw] =
      [GetSecretCall ''shop'' ''no-cert'', GetSecretCall ''shop'' ''shop-cert'']
        @ secretsLoop shop ''shop'' ?gw []
        @ [] @ Print (AnalyzeError (GetName ?gw) ''shop'' ''tls.crt not found in secret'')
        # secretsLoop shop ''shop'' ?gw [shopCert] @ gatewaysLoop shop ''shop'' []"
    by blast
  then show ?thesis
    by (simp add: names analyzeCertificate_shopCert shopCert_name)
qed

text \<open>
  C7. When the analysis of a secret succeeds, the secret has a \<^verbatim>\<open>tls.crt\<close> entry that
  decodes, \<^verbatim>\<open>openssl\<close> was run once on the decoded bytes, and the expiration string is
  its output without a leading \<^verbatim>\<open>notAfter=\<close> and without surrounding white space: what
  was removed around it is white space only, and it neither starts nor ends with white
  space. The walker then prints one line for the secret, which reads
  \<^verbatim>\<open>Certificate <secretName> in gateway <gatewayName> in namespace <namespace> expiration date is <expiryDate>\<close>
  and ends with a newline.
\<close>

theorem expiry_line_format:
  assumes "analyzeCertificate e secret = ((expiryDate, None), evs)"
  shows "\<exists>certData certBytes output.
      Data secret ''tls.crt'' = Some certData
      \<and> DecodeString
           (ReplaceAll (ReplaceAll certData (''-----BEGIN CERTIFICATE-----'' @ [NL]) [])
              (NL # ''-----END CERTIFICATE-----'') []) = (certBytes, None)
      \<and> openssl e certBytes = Inr output
      \<and> evs = [OpensslCall certBytes]
      \<and> expiryDate = TrimSpace (TrimPrefix output ''notAfter='')
      \<and> (prefix ''notAfter='' output \<longrightarrow> output = ''notAfter='' @ TrimPrefix output ''notAfter='')
      \<and> (\<not> prefix ''notAfter='' output \<longrightarrow> TrimPrefix output ''notAfter='' = output)
      \<and> leadingSpace expiryDate = 0 \<and> trailingSpace expiryDate = 0
      \<and> (\<exists>l r. set l \<subseteq> set spaceRunes \<and> set r \<subseteq> set spaceRunes
             \<and> TrimPrefix output ''notAfter='' = concat l @ expiryDate @ concat r)
      \<and> secretsLoop e ns gw (secret # secrets) =
          OpensslCall certBytes
            # Print (Certificate (Name secret) (GetName gw) ns expiryDate)
            # secretsLoop e ns gw secrets
      \<and> stdout [Print (Certificate (Name secret) (GetName gw) ns expiryDate)] =
          ''Certificate '' @ Name secret @ '' in gateway '' @ GetName gw @ '' in namespace ''
            @ ns @ '' expiration date is '' @ expiryDate @ [NL]"
proof -
  from assms obtain certData certBytes outp where
    run: "Data secret ''tls.crt'' = Some certData"
      "DecodeString
           (ReplaceAll (ReplaceAll certData (''-----BEGIN CERTIFICATE-----'' @ [NL]) [])
              (NL # ''-----END CERTIFICATE-----'') []) = (certBytes, None)"
      "openssl e certBytes = Inr outp"
      "evs = [OpensslCall certBytes]"
      "expiryDate = TrimSpace (TrimPrefix outp ''notAfter='')"
    by (auto simp: analyzeCertificate_def Let_def split: option.splits prod.splits sum.splits)
  have loop: "secretsLoop e ns gw (secret # secrets) =
          OpensslCall certBytes
            # Print (Certificate (Name secret) (GetName gw) ns expiryDate)
            # secretsLoop e ns gw secrets"
    using assms run(4) by simp
  have printed: "stdout [Print (Certificate (Name secret) (GetName gw) ns expiryDate)] =
          ''Certificate '' @ Name secret @ '' in gateway '' @ GetName gw @ '' in namespace ''
            @ ns @ '' expiration date is '' @ expiryDate @ [NL]"
    by (simp add: stdout_def)
  from run loop printed TrimPrefix_shape [of "''notAfter=''" outp]
    TrimSpace_shape [of "TrimPrefix outp ''notAfter=''"]
  show ?thesis by blast
qed

theorem expiry_line_format_witness:
  "analyzeCertificate shop shopCert =
     ((''Jan  1 00:00:00 2030 GMT'', None), [OpensslCall ''ABCEFG''])
   \<and> secretsLoop shop ''shop'' edge [shopCert] =
       [OpensslCall ''ABCEFG'',
        Print (Certificate ''shop-cert'' ''edge'' ''shop'' ''Jan  1 00:00:00 2030 GMT'')]
   \<and> stdout [Print (Certificate ''shop-cert'' ''edge'' ''shop'' ''Jan  1 00:00:00 2030 GMT'')] =
       ''Certificate shop-cert in gateway edge in namespace shop expiration date is Jan  1 00:00:00 2030 GMT''
         @ [NL]"
  using expiry_line_format [OF analyzeCertificate_shopCert, of "''shop''" edge "[]"]
    analyzeCertificate_shopCert
  by (auto simp: edge_names shopCert_name)

text \<open>
  C10, for bytes other than carriage return and line feed, which the decoder of
  \<^verbatim>\<open>encoding/base64\<close> skips. When the \<^verbatim>\<open>tls.crt\<close> payload, after the two PEM markers are removed, still
  contains a byte that is neither in the base64 alphabet, nor the padding \<^verbatim>\<open>=\<close>, nor a
  carriage return or line feed, the analysis fails with a decode error, \<^verbatim>\<open>openssl\<close>
  is not called, and the walker prints the diagnostic and no record for the secret.
\<close>

theorem non_base64_residual_rejected:
  assumes "Data secret ''tls.crt'' = Some certData"
    and "c \<in> set (ReplaceAll (ReplaceAll certData (''-----BEGIN CERTIFICATE-----'' @ [NL]) [])
                    (NL # ''-----END CERTIFICATE-----'') [])"
    and "decodeMap c = None" and "c \<noteq> CHR ''=''" and "c \<noteq> NL" and "c \<noteq> CR"
  shows "\<exists>n. analyzeCertificate e secret =
             (([], Some (''error decoding certificate data: '' @ corruptInputError n)), [])
     \<and> secretsLoop e ns gw (secret # secrets) =
         Print (AnalyzeError (GetName gw) ns
                  (''error decoding certificate data: '' @ corruptInputError n))
           # secretsLoop e ns gw secrets"
proof -
  let ?residual = "ReplaceAll (ReplaceAll certData (''-----BEGIN CERTIFICATE-----'' @ [NL]) [])
                    (NL # ''-----END CERTIFICATE-----'') []"
  from decodeLoop_garbage [OF assms(2,3,5,6,4), of "[]" 0]
  obtain certBytes n where "DecodeString ?residual = (certBytes, Some n)"
    by (cases "DecodeString ?residual") (auto simp: DecodeString_def)
  with assms(1) have "analyzeCertificate e secret =
             (([], Some (''error decoding certificate data: '' @ corruptInputError n)), [])"
    by (simp add: analyzeCertificate_def Let_def)
  then show ?thesis by (intro exI [of _ n]) simp
qed

theorem non_base64_residual_rejected_witness:
  "analyzeCertificate shop badCert =
     (([], Some ''error decoding certificate data: illegal base64 data at input byte 4''), [])
   \<and> secretsLoop shop ''shop'' edge [badCert] =
       [Print (AnalyzeError ''edge'' ''shop''
                 ''error decoding certificate data: illegal base64 data at input byte 4'')]"
proof -
  have d: "Data badCert ''tls.crt'' = Some ''QUJD RUZH''" by (simp add: badCert_def)
  have r: "CHR '' '' \<in> set (ReplaceAll (ReplaceAll ''QUJD RUZH''
                    (''-----BEGIN CERTIFICATE-----'' @ [NL]) [])
                    (NL # ''-----END CERTIFICATE-----'') [])"
    by (simp add: NL_def)
  have m: "decodeMap CHR '' '' = None" by (simp add: decodeMap_def)
  have run: "analyzeCertificate shop badCert =
     (([], Some ''error decoding certificate data: illegal base64 data at input byte 4''), [])"
    by (simp add: analyzeCertificate_def badCert_def NL_def CR_def DecodeString_def
        decodeMap_def corruptInputError_def decimal.simps char_of_def bit_Suc_0_iff)
  from non_base64_residual_rejected [OF d r m, of shop "''shop''" edge "[]"] run
  show ?thesis by (simp add: NL_def CR_def edge_names)
qed

text \<open>
  C10 as stated fails: the residue of a line-wrapped PEM block contains line feeds,
  which are outside the alphabet and are not padding, and yet it decodes, \<^verbatim>\<open>openssl\<close>
  is called, and a record is printed.
\<close>

theorem wrapped_pem_is_decoded:
  "Data shopCert ''tls.crt''
     = Some (''-----BEGIN CERTIFICATE-----'' @ [NL] @ ''QUJD'' @ [NL] @ ''RUZH'' @ [NL]
              @ ''-----END CERTIFICATE-----'' @ [NL])
   \<and> NL \<in> set (ReplaceAll
                  (ReplaceAll
                     (''-----BEGIN CERTIFICATE-----'' @ [NL] @ ''QUJD'' @ [NL] @ ''RUZH'' @ [NL]
                        @ ''-----END CERTIFICATE-----'' @ [NL])
                     (''-----BEGIN CERTIFICATE-----'' @ [NL]) [])
                  (NL # ''-----END CERTIFICATE-----'') [])
   \<and> decodeMap NL = None \<and> NL \<noteq> CHR ''=''
   \<and> analyzeCertificate shop shopCert =
       ((''Jan  1 00:00:00 2030 GMT'', None), [OpensslCall ''ABCEFG''])
   \<and> secretsLoop shop ''shop'' edge [shopCert] =
       [OpensslCall ''ABCEFG'',
        Print (Certificate ''shop-cert'' ''edge'' ''shop'' ''Jan  1 00:00:00 2030 GMT'')]"
proof -
  have "decodeMap NL = None" "NL \<noteq> CHR ''=''"
    by (simp_all add: decodeMap_def NL_def)
  then show ?thesis
    by (simp add: shopCert_residual analyzeCertificate_shopCert edge_names)
      (simp add: shopCert_def)
qed

subsection \<open>The scan\<close>

text \<open>
  C5. Every certificate line the walker prints carries a namespace of the list it was
  given and the name of a gateway that the listing of that namespace returned; and its
  secret was fetched, from that gateway's namespace, for a server of that gateway that
  is a record with a \<^verbatim>\<open>tls\<close> block, a mode other than \<^verbatim>\<open>PASSTHROUGH\<close> and a credential
  name. So no line comes from a pass-through server or from one without credential
  name.
\<close>

theorem records_come_from_terminated_servers:
  assumes "Print (Certificate secretName gwName ns expiryDate) \<in> set (snd (getNsGateways e nsList))"
  shows "ns \<in> set nsList
     \<and> (\<exists>items gw. listGateways e ns = Inr items \<and> gw \<in> set items \<and> GetName gw = gwName
          \<and> (\<exists>spec servers server tls mode credentialName secret.
                map_of gw ''spec'' = Some (JMap spec)
                \<and> map_of spec ''servers'' = Some (JList servers)
                \<and> JMap server \<in> set servers
                \<and> map_of server ''tls'' = Some (JMap tls)
                \<and> map_of tls ''mode'' = Some (JStr mode) \<and> mode \<noteq> ''PASSTHROUGH''
                \<and> map_of tls ''credentialName'' = Some (JStr credentialName)
                \<and> getSecret e (GetNamespace gw) credentialName = Inr secret
                \<and> Name secret = secretName))"
proof -
  let ?l = "Certificate secretName gwName ns expiryDate"
  from assms have "?l \<in> set (printed (snd (getNsGateways e nsList)))"
    by (simp add: Print_in_printed)
  from getNsGateways_printed [OF this] obtain n items where n: "n \<in> set nsList"
    and li: "listGateways e n = Inr items"
    and g: "?l \<in> set (printed (gatewaysLoop e n items))" by blast
  from gatewaysLoop_printed [OF g] obtain gw secrets gevs secret where
    gw: "gw \<in> set items" and ex: "getGatewaySecrets e gw = ((secrets, None), gevs)"
    and sec: "secret \<in> set secrets"
    and l: "?l = Certificate (Name secret) (GetName gw) n expiryDate"
    by auto
  from extracted_secret_origin [OF ex sec] obtain spec servers s c where
    sp: "map_of gw ''spec'' = Some (JMap spec)"
    and sv: "map_of spec ''servers'' = Some (JList servers)"
    and s: "s \<in> set servers" and t: "terminated s = Some c"
    and f: "getSecret e (GetNamespace gw) c = Inr secret" by blast
  from t obtain server tls mode where "s = JMap server" "map_of server ''tls'' = Some (JMap tls)"
    "map_of tls ''mode'' = Some (JStr mode)" "mode \<noteq> ''PASSTHROUGH''"
    "map_of tls ''credentialName'' = Some (JStr c)"
    unfolding terminated_Some_iff by blast
  with n li gw l sp sv s f show ?thesis by blast
qed

theorem records_come_from_terminated_servers_witness:
  "Print (Certificate ''shop-cert'' ''edge'' ''shop'' ''Jan  1 00:00:00 2030 GMT'')
     \<in> set (snd (getNsGateways shop [''shop'']))
   \<and> listGateways shop ''shop'' = Inr [edge] \<and> GetName edge = ''edge''
   \<and> (\<exists>gw spec servers server tls mode credentialName secret.
         gw \<in> set [edge] \<and> GetName gw = ''edge''
         \<and> map_of gw ''spec'' = Some (JMap spec)
         \<and> map_of spec ''servers'' = Some (JList servers)
         \<and> JMap server \<in> set servers
         \<and> map_of server ''tls'' = Some (JMap tls)
         \<and> map_of tls ''mode'' = Some (JStr mode) \<and> mode \<noteq> ''PASSTHROUGH''
         \<and> map_of tls ''credentialName'' = Some (JStr credentialName)
         \<and> getSecret shop (GetNamespace gw) credentialName = Inr secret
         \<and> Name secret = ''shop-cert'')"
proof -
  have a: "Print (Certificate ''shop-cert'' ''edge'' ''shop'' ''Jan  1 00:00:00 2030 GMT'')
     \<in> set (snd (getNsGateways shop [''shop'']))"
    by (simp add: getNsGateways_shop del: getNsGateways.simps)
  have b: "listGateways shop ''shop'' = Inr [edge]" by (simp add: shop_def)
  from records_come_from_terminated_servers [OF a] a b show ?thesis by (auto simp: edge_names)
qed

text \<open>
  C2. When the gateway listing of a namespace fails, and the namespaces before it were
  scanned, \<^verbatim>\<open>getNsGateways\<close> returns that error right after the failed call: its trace is
  the trace of the namespaces before, then the call, whatever namespaces follow in the
  list. \<^verbatim>\<open>main\<close> then prints the error once and ends. The failing namespace is not among
  those before it, and every line printed before the failure is about one of those.
\<close>

theorem listing_failure_aborts_scan:
  assumes "listGateways e ns = Inl err" and "fst (getNsGateways e pre) = None"
  shows "getNsGateways e (pre @ ns # post) =
           (Some err, snd (getNsGateways e pre) @ [ListGatewaysCall ns])
     \<and> (k8sClient e = None \<and> getNamespaces e = ((pre @ ns # post, None), evs)
          \<longrightarrow> main e = evs @ snd (getNsGateways e pre)
                          @ [ListGatewaysCall ns, Print (ResourcesError err)])
     \<and> ns \<notin> set pre
     \<and> (\<forall>l\<in>set (printed (snd (getNsGateways e pre))). \<exists>n\<in>set pre. lineNamespace l = Some n)"
proof -
  from assms have run: "getNsGateways e (pre @ ns # post) =
           (Some err, snd (getNsGateways e pre) @ [ListGatewaysCall ns])"
    by (simp add: getNsGateways_append)
  then have "k8sClient e = None \<and> getNamespaces e = ((pre @ ns # post, None), evs)
          \<longrightarrow> main e = evs @ snd (getNsGateways e pre)
                          @ [ListGatewaysCall ns, Print (ResourcesError err)]"
    by (simp add: main_def)
  moreover from assms getNsGateways_ok_lists [of e pre ns] have "ns \<notin> set pre" by auto
  ultimately show ?thesis using run getNsGateways_lines [of _ e pre] by blast
qed

theorem listing_failure_aborts_scan_witness:
  "getNsGateways shop ([''shop''] @ ''web'' # [''later'']) =
     (Some ''forbidden'',
      [ListGatewaysCall ''shop'', GetSecretCall ''shop'' ''shop-cert'', OpensslCall ''ABCEFG'',
       Print (Certificate ''shop-cert'' ''edge'' ''shop'' ''Jan  1 00:00:00 2030 GMT''),
       ListGatewaysCall ''web''])
   \<and> main shop =
      [ListNamespacesCall,
       ListGatewaysCall ''shop'', GetSecretCall ''shop'' ''shop-cert'', OpensslCall ''ABCEFG'',
       Print (Certificate ''shop-cert'' ''edge'' ''shop'' ''Jan  1 00:00:00 2030 GMT''),
       ListGatewaysCall ''web'', Print (ResourcesError ''forbidden'')]"
proof -
  have a: "listGateways shop ''web'' = Inl ''forbidden''" by (simp add: listGateways_shop)
  have b: "fst (getNsGateways shop [''shop'']) = None"
    by (simp add: getNsGateways_shop del: getNsGateways.simps)
  have c: "k8sClient shop = None" by (rule k8sClient_shop)
  have d: "getNamespaces shop = (([''shop''] @ ''web'' # [], None), [ListNamespacesCall])"
    by (simp add: getNamespaces_def listNamespaces_shop)
  from listing_failure_aborts_scan [OF a b, of "[''later'']" "[ListNamespacesCall]"]
    listing_failure_aborts_scan [OF a b, of "[]" "[ListNamespacesCall]"] c d
  show ?thesis by (simp add: getNsGateways_shop del: getNsGateways.simps)
qed

text \<open>
  C1, on the example cluster. A gateway without \<^verbatim>\<open>spec.servers\<close> makes the extraction
  fail; the walker prints a diagnostic and goes on to the next gateway, which prints its
  record. The diagnostic holds the namespace and the cause but not the gateway's name:
  the gateways \<^verbatim>\<open>alpha\<close> and \<^verbatim>\<open>beta\<close> produce the same output.
\<close>

theorem extraction_diagnostic_omits_gateway_name:
  "GetName (broken ''alpha'') = ''alpha'' \<and> GetName (broken ''beta'') = ''beta''
   \<and> gatewaysLoop shop ''shop'' [broken ''alpha'', edge] =
       [Print (SecretsError ''shop'' ''error getting gateway servers: <nil>''),
        GetSecretCall ''shop'' ''shop-cert'', OpensslCall ''ABCEFG'',
        Print (Certificate ''shop-cert'' ''edge'' ''shop'' ''Jan  1 00:00:00 2030 GMT'')]
   \<and> stdout (gatewaysLoop shop ''shop'' [broken ''alpha'']) =
       ''error getting secrets for gateway in namespace shop: error getting gateway servers: <nil>''
         @ [NL]
   \<and> stdout (gatewaysLoop shop ''shop'' [broken ''beta'']) =
       stdout (gatewaysLoop shop ''shop'' [broken ''alpha''])"
  by (simp add: broken_names getGatewaySecrets_broken getGatewaySecrets_edge
      analyzeCertificate_shopCert edge_names shopCert_name stdout_def)

end
